theory Spec2Isabelle
  imports Complex_Main "HOL-Library.Multiset"
begin

section \<open>Go library operations the program calls\<close>

text \<open>
  The program is one Go file, \<^verbatim>\<open>main.go\<close>. The standard-library string and path
  operations it uses are written out here after their documented behaviour on a Unix
  system (path separator \<^verbatim>\<open>/\<close>). Go strings are byte sequences, as \<^typ>\<open>string\<close> is.
\<close>

definition HasSuffix :: "string \<Rightarrow> string \<Rightarrow> bool" where
  \<comment> \<open>\<^verbatim>\<open>strings.HasSuffix\<close>\<close>
  "HasSuffix s suffix \<longleftrightarrow>
     length suffix \<le> length s \<and> drop (length s - length suffix) s = suffix"

definition TrimSuffix :: "string \<Rightarrow> string \<Rightarrow> string" where
  \<comment> \<open>\<^verbatim>\<open>strings.TrimSuffix\<close>\<close>
  "TrimSuffix s suffix =
     (if HasSuffix s suffix then take (length s - length suffix) s else s)"

definition isSep :: "char \<Rightarrow> bool" where
  "isSep c \<longleftrightarrow> c = CHR ''/''"

definition Base :: "string \<Rightarrow> string" where
  \<comment> \<open>\<^verbatim>\<open>filepath.Base\<close>: the last element of the path, trailing separators removed first;
      \<^verbatim>\<open>.\<close> for the empty path and \<^verbatim>\<open>/\<close> for a path of separators only.\<close>
  "Base path =
     (if path = [] then ''.''
      else let stripped = rev (dropWhile isSep (rev path));
               elem = rev (takeWhile (\<lambda>c. \<not> isSep c) (rev stripped))
           in if elem = [] then ''/'' else elem)"

definition Ext :: "string \<Rightarrow> string" where
  \<comment> \<open>\<^verbatim>\<open>filepath.Ext\<close>: the suffix that begins at the last dot of the last element.\<close>
  "Ext path =
     (let tl_rev = takeWhile (\<lambda>c. \<not> isSep c) (rev path)
      in if CHR ''.'' \<in> set tl_rev
         then CHR ''.'' # rev (takeWhile (\<lambda>c. c \<noteq> CHR ''.'') tl_rev)
         else [])"

text \<open>
  \<^verbatim>\<open>filepath.Join\<close> of two elements drops leading empty elements, joins the rest with the
  separator and applies \<^verbatim>\<open>filepath.Clean\<close>. \<^verbatim>\<open>Clean\<close>, the JSON decoder and the
  rendering of a \<^verbatim>\<open>time.Duration\<close> are library code outside the repository; they are
  parameters of the model.
\<close>

datatype json =
    JNull
  | JBool bool
  | JNumber real
  | JString string
  | JArray "json list"
  | JObject "(string \<times> json) list"

type_synonym oserror = string
type_synonym duration = int

record golib =
  Clean :: "string \<Rightarrow> string"
  Unmarshal :: "string \<Rightarrow> oserror + (string \<rightharpoonup> json)"
  DurationString :: "duration \<Rightarrow> string"
  float64_overflow :: "real \<Rightarrow> int"

definition Join :: "golib \<Rightarrow> string \<Rightarrow> string \<Rightarrow> string" where
  "Join L a b =
     (if a \<noteq> [] then Clean L (a @ ''/'' @ b)
      else if b \<noteq> [] then Clean L b
      else [])"

definition int_of_float64 :: "golib \<Rightarrow> real \<Rightarrow> int" where
  \<comment> \<open>The conversion \<^verbatim>\<open>int(v)\<close> of a \<^verbatim>\<open>float64\<close>: the fraction is discarded (truncation
      towards zero). A value outside the 64-bit range gives an implementation-dependent
      result, which the platform parameter supplies.\<close>
  "int_of_float64 L v =
     (let t = (if v < 0 then \<lceil>v\<rceil> else \<lfloor>v\<rfloor>)
      in if - (2 ^ 63) \<le> t \<and> t < 2 ^ 63 then t else float64_overflow L v)"

definition uint_of_int :: "int \<Rightarrow> nat" where
  \<comment> \<open>The conversion \<^verbatim>\<open>uint(n)\<close> of a 64-bit \<^verbatim>\<open>int\<close>: negative values wrap around.\<close>
  "uint_of_int n = nat (n mod 2 ^ 64)"

fun digits :: "nat \<Rightarrow> string" where
  "digits n =
     (if n < 10 then [char_of (48 + n)]
      else digits (n div 10) @ [char_of (48 + n mod 10)])"

declare digits.simps [simp del]

definition fmt_d :: "int \<Rightarrow> string" where
  \<comment> \<open>the verb \<^verbatim>\<open>%d\<close> of \<^verbatim>\<open>fmt.Sprintf\<close> on an \<^verbatim>\<open>int\<close>\<close>
  "fmt_d i = (if i < 0 then CHR ''-'' # digits (nat (- i)) else digits (nat i))"

section \<open>Configuration\<close>

text \<open>
  The package-level variables of \<^verbatim>\<open>main.go\<close> (lines 24--33). They are written by flag
  parsing and by \<^verbatim>\<open>readConfig\<close> and only read afterwards, so the model passes them as one
  record. \<^verbatim>\<open>maxRetries\<close> is the constant of line 35.
\<close>

record config =
  inputPath :: string
  outputPath :: string
  compression :: int
  maxWidth :: int
  maxHeight :: int
  outputFormat :: string
  configFile :: string
  parallelism :: int

definition maxRetries :: nat where
  "maxRetries = 1"

definition default_flags :: "int \<Rightarrow> config" where
  \<comment> \<open>The flag defaults of lines 53--60; the argument is \<^verbatim>\<open>runtime.NumCPU()\<close>.\<close>
  "default_flags ncpu =
     \<lparr> inputPath = [], outputPath = [], compression = 75, maxWidth = 0, maxHeight = 0,
       outputFormat = ''jpeg'', configFile = [], parallelism = ncpu \<rparr>"

text \<open>The files and directories the set-up phase touches.\<close>

record env =
  ReadFile :: "string \<Rightarrow> oserror + string"
  MkdirAll :: "string \<Rightarrow> oserror option"
  WalkEntries :: "string \<Rightarrow> (string \<times> bool \<times> oserror option) list"
  WriteFile :: "string \<Rightarrow> string \<Rightarrow> oserror option"

fun as_string :: "json option \<Rightarrow> string option" where
  \<comment> \<open>the type assertion \<^verbatim>\<open>config[key].(string)\<close> in its two-valued form; a missing key
      reads as \<^verbatim>\<open>nil\<close>, which is no string\<close>
  "as_string (Some (JString v)) = Some v"
| "as_string _ = None"

fun as_float64 :: "json option \<Rightarrow> real option" where
  \<comment> \<open>the type assertion \<^verbatim>\<open>config[key].(float64)\<close>\<close>
  "as_float64 (Some (JNumber v)) = Some v"
| "as_float64 _ = None"

definition readConfig :: "golib \<Rightarrow> env \<Rightarrow> string \<Rightarrow> config \<Rightarrow> oserror + config" where
  "readConfig L E file cfg =
     (case ReadFile E file of
        Inl err \<Rightarrow> Inl err
      | Inr data \<Rightarrow>
          (case Unmarshal L data of
             Inl err \<Rightarrow> Inl err
           | Inr conf \<Rightarrow>
               let c1 = (case as_string (conf ''input'') of
                           Some v \<Rightarrow> cfg\<lparr>inputPath := v\<rparr> | None \<Rightarrow> cfg);
                   c2 = (case as_string (conf ''output'') of
                           Some v \<Rightarrow> c1\<lparr>outputPath := v\<rparr> | None \<Rightarrow> c1);
                   c3 = (case as_float64 (conf ''compression'') of
                           Some v \<Rightarrow> c2\<lparr>compression := int_of_float64 L v\<rparr> | None \<Rightarrow> c2);
                   c4 = (case as_float64 (conf ''width'') of
                           Some v \<Rightarrow> c3\<lparr>maxWidth := int_of_float64 L v\<rparr> | None \<Rightarrow> c3);
                   c5 = (case as_float64 (conf ''height'') of
                           Some v \<Rightarrow> c4\<lparr>maxHeight := int_of_float64 L v\<rparr> | None \<Rightarrow> c4);
                   c6 = (case as_string (conf ''format'') of
                           Some v \<Rightarrow> c5\<lparr>outputFormat := v\<rparr> | None \<Rightarrow> c5)
               in Inr c6))"

section \<open>Processing one image\<close>

text \<open>
  What one call of \<^verbatim>\<open>processImage\<close> meets outside the program: the external tool, the file
  system, the image codecs and the clock. The content of an opened file stands for its
  handle. \<^verbatim>\<open>elapsed\<close> is \<^verbatim>\<open>endTime.Sub(startTime)\<close> of lines 257--258.

  The program contains no \<^verbatim>\<open>recover\<close>. A library call that panics, as \<^verbatim>\<open>resize.Resize\<close> does
  on a target size it cannot allocate, therefore ends the call of \<^verbatim>\<open>processImage\<close> without a
  return value. \<open>panic_at\<close> names the library call, if any, in which the invocation panics.
\<close>

datatype encode_option = JPEGQuality int

datatype lib_call =
    Call_exiftool   \<comment> \<open>line 211, \<^verbatim>\<open>cmd.Run()\<close>\<close>
  | Call_Open       \<comment> \<open>line 220, \<^verbatim>\<open>os.Open\<close>\<close>
  | Call_Decode     \<comment> \<open>line 226, \<^verbatim>\<open>image.Decode\<close>\<close>
  | Call_resize     \<comment> \<open>lines 232--236, \<^verbatim>\<open>imaging.Fit\<close> or \<^verbatim>\<open>resize.Resize\<close>\<close>
  | Call_Save       \<comment> \<open>lines 242--248, \<^verbatim>\<open>imaging.Save\<close>\<close>

record 'img world =
  exiftool :: "string \<Rightarrow> oserror option"
  os_Open :: "string \<Rightarrow> oserror + string"
  image_Decode :: "string \<Rightarrow> oserror + 'img"
  imaging_Fit :: "'img \<Rightarrow> int \<Rightarrow> int \<Rightarrow> 'img"
  resize_Resize :: "nat \<Rightarrow> nat \<Rightarrow> 'img \<Rightarrow> 'img"
  imaging_Save :: "'img \<Rightarrow> string \<Rightarrow> encode_option list \<Rightarrow> oserror option"
  elapsed :: duration
  panic_at :: "lib_call option"

text \<open>
  How a call of \<^verbatim>\<open>processImage\<close> fails: with one of the errors it returns (the
  \<^verbatim>\<open>fmt.Errorf\<close> of lines 212, 222, 228, 250 and 254), or with a panic, which is no return
  value and which the caller cannot test for.
\<close>

datatype perror =
    ErrConvertCR3 oserror
  | ErrOpen string oserror
  | ErrDecode string oserror
  | ErrUnsupportedFormat string
  | ErrSave string oserror
  | RuntimePanic

text \<open>The files a call writes: the intermediate file of the external tool and the
  encoded thumbnail, the latter with the image, the path and the encoder options.\<close>

datatype 'img effect =
    RunExiftool string
  | SaveImage 'img string "encode_option list"

definition resized :: "config \<Rightarrow> 'img world \<Rightarrow> 'img \<Rightarrow> 'img" where
  \<comment> \<open>lines 231--237\<close>
  "resized cfg w img =
     (if maxWidth cfg > 0 \<and> maxHeight cfg > 0
        then imaging_Fit w img (maxWidth cfg) (maxHeight cfg)
      else if maxWidth cfg > 0
        then resize_Resize w (uint_of_int (maxWidth cfg)) 0 img
      else resize_Resize w 0 (uint_of_int (maxHeight cfg)) img)"

definition save_and_finish ::
  "'img world \<Rightarrow> 'img effect list \<Rightarrow> 'img \<Rightarrow> string \<Rightarrow> encode_option list
     \<Rightarrow> 'img effect list \<times> (perror + duration)" where
  \<comment> \<open>one \<^verbatim>\<open>imaging.Save\<close> call of the switch, then lines 253--261\<close>
  "save_and_finish w tr img outputFile opts =
     (if panic_at w = Some Call_Save
        then (tr @ [SaveImage img outputFile opts], Inl RuntimePanic)
      else case imaging_Save w img outputFile opts of
             Some err \<Rightarrow> (tr @ [SaveImage img outputFile opts], Inl (ErrSave outputFile err))
           | None \<Rightarrow> (tr @ [SaveImage img outputFile opts], Inr (elapsed w)))"

definition write_output ::
  "golib \<Rightarrow> config \<Rightarrow> 'img world \<Rightarrow> 'img effect list \<Rightarrow> 'img \<Rightarrow> string
     \<Rightarrow> 'img effect list \<times> (perror + duration)" where
  \<comment> \<open>lines 239--261: the output path from the name of the decoded file, and the switch
      on the output format\<close>
  "write_output L cfg w tr img file =
     (let outputFile = Join L (outputPath cfg)
            (TrimSuffix (Base file) (Ext file) @ ''.'' @ outputFormat cfg)
      in if outputFormat cfg = ''jpeg''
           then save_and_finish w tr img outputFile [JPEGQuality (compression cfg)]
         else if outputFormat cfg = ''png''
           then save_and_finish w tr img outputFile []
         else if outputFormat cfg = ''gif''
           then save_and_finish w tr img outputFile []
         else if outputFormat cfg = ''bmp''
           then save_and_finish w tr img outputFile []
         else (tr, Inl (ErrUnsupportedFormat (outputFormat cfg))))"

definition processImage ::
  "golib \<Rightarrow> config \<Rightarrow> 'img world \<Rightarrow> string
     \<Rightarrow> 'img effect list \<times> (perror + duration)" where
  \<comment> \<open>The result is the list of files written (or being written when the call ends) and
      the failure or the measured duration. For a \<^verbatim>\<open>.cr3\<close> file the external tool runs first
      and the file it writes is the one opened, decoded and named in the output path.\<close>
  "processImage L cfg w file0 =
     (let cr3 = HasSuffix file0 ''.cr3'';
          jpegFile = TrimSuffix file0 ''.cr3'' @ ''.jpg'';
          tr = (if cr3 then [RunExiftool file0] else [])
      in if cr3 \<and> panic_at w = Some Call_exiftool then (tr, Inl RuntimePanic)
         else case (if cr3 then exiftool w file0 else None) of
           Some err \<Rightarrow> (tr, Inl (ErrConvertCR3 err))
         | None \<Rightarrow>
             (let file = (if cr3 then jpegFile else file0)
              in if panic_at w = Some Call_Open then (tr, Inl RuntimePanic)
                 else (case os_Open w file of
                    Inl err \<Rightarrow> (tr, Inl (ErrOpen file err))
                  | Inr imgFile \<Rightarrow>
                      if panic_at w = Some Call_Decode then (tr, Inl RuntimePanic)
                      else (case image_Decode w imgFile of
                         Inl err \<Rightarrow> (tr, Inl (ErrDecode file err))
                       | Inr img0 \<Rightarrow>
                           if panic_at w = Some Call_resize then (tr, Inl RuntimePanic)
                           else write_output L cfg w tr (resized cfg w img0) file))))"

fun is_save :: "'img effect \<Rightarrow> bool" where
  "is_save (SaveImage img path opts) = True"
| "is_save (RunExiftool f) = False"

section \<open>The summary report\<close>

definition nl :: string where
  "nl = [CHR 0x0A]"

definition report_header :: "golib \<Rightarrow> int \<Rightarrow> int \<Rightarrow> int \<Rightarrow> duration \<Rightarrow> string" where
  \<comment> \<open>the \<^verbatim>\<open>fmt.Sprintf\<close> of lines 148--153\<close>
  "report_header L n_total success errors d =
     ''Summary Report:'' @ nl @
     ''Total images processed: '' @ fmt_d n_total @ nl @
     ''Successfully processed: '' @ fmt_d success @ nl @
     ''Errors encountered: '' @ fmt_d errors @ nl @
     ''Total time taken: '' @ DurationString L d @ nl"

fun report_loop :: "golib \<Rightarrow> string \<Rightarrow> nat \<Rightarrow> duration list \<Rightarrow> string" where
  \<comment> \<open>the \<^verbatim>\<open>range\<close> loop of lines 155--157, from index \<open>i\<close> on\<close>
  "report_loop L report i [] = report"
| "report_loop L report i (d # ds) =
     report_loop L
       (report @ ''Image '' @ fmt_d (int i + 1) @ '' processing time: '' @ DurationString L d @ nl)
       (Suc i) ds"

datatype abort =
    Fatal string oserror
  | Panic string

definition generateSummaryReport ::
  "golib \<Rightarrow> env \<Rightarrow> config \<Rightarrow> int \<Rightarrow> int \<Rightarrow> int \<Rightarrow> duration \<Rightarrow> duration list
     \<Rightarrow> abort + (string \<times> string)" where
  \<comment> \<open>The result is the fatal error of line 161, or the file written: its path and text.\<close>
  "generateSummaryReport L E cfg n_total success errors d durations =
     (let report = report_loop L (report_header L n_total success errors d) 0 durations;
          reportFile = Join L (outputPath cfg) ''summary_report.txt''
      in case WriteFile E reportFile report of
           Some err \<Rightarrow> Inl (Fatal ''Error writing summary report: '' err)
         | None \<Rightarrow> Inr (reportFile, report))"

section \<open>The run\<close>

subsection \<open>Set-up (lines 70--107)\<close>

fun collect_files :: "string list \<Rightarrow> (string \<times> bool \<times> oserror option) list \<Rightarrow> oserror + string list" where
  \<comment> \<open>The callback of \<^verbatim>\<open>filepath.Walk\<close> (lines 87--95) over the entries visited: path, whether
      it is a directory, and the error of reaching it.\<close>
  "collect_files acc [] = Inr acc"
| "collect_files acc ((path, isDir, err) # rest) =
     (case err of
        Some e \<Rightarrow> Inl e
      | None \<Rightarrow> collect_files (if \<not> isDir then acc @ [path] else acc) rest)"

text \<open>
  The concurrent part of \<^verbatim>\<open>run\<close> is a state machine. The main goroutine is at one of the
  places below; one worker goroutine per file is at one of the places of \<open>wpc\<close>. The
  counter updates \<^verbatim>\<open>errorCount++\<close>, \<^verbatim>\<open>successCount++\<close> and the \<^verbatim>\<open>append\<close> are each a read
  followed by a write, so that the mutex is what keeps them whole.

  A call of \<^verbatim>\<open>processImage\<close> ends in one of three ways: it returns an error, it returns a
  duration, or it panics. A panic skips the rest of the goroutine's body, so neither counter
  is touched; the two deferred calls of lines 114--115 still run, and only then the panic
  reaches the top of the goroutine and the runtime ends the process with status 2. Between
  the deferred \<^verbatim>\<open>wg.Done()\<close> and the end of the process the main goroutine may leave
  \<^verbatim>\<open>wg.Wait()\<close> and write the report. A call that never returns and the log output are not
  part of the model.
\<close>

datatype main_pc =
    M_loop      \<comment> \<open>line 109, and \<^verbatim>\<open>wg.Add(1)\<close> of line 110 when a file is left\<close>
  | M_send      \<comment> \<open>line 111, \<^verbatim>\<open>sem <- struct{}{}\<close>\<close>
  | M_go        \<comment> \<open>line 113, the \<^verbatim>\<open>go\<close> statement\<close>
  | M_wait      \<comment> \<open>line 139, \<^verbatim>\<open>wg.Wait()\<close>\<close>
  | M_joined    \<comment> \<open>line 140, after the wait has returned\<close>

datatype wpc =
    W_loop          \<comment> \<open>line 118, the loop test\<close>
  | W_call          \<comment> \<open>line 119, inside \<^verbatim>\<open>processImage\<close>\<close>
  | W_err_lock      \<comment> \<open>line 124\<close>
  | W_err_load      \<comment> \<open>line 125, read of \<^verbatim>\<open>errorCount\<close>\<close>
  | W_err_store     \<comment> \<open>line 125, write of \<^verbatim>\<open>errorCount\<close>\<close>
  | W_err_unlock    \<comment> \<open>line 126\<close>
  | W_ok_lock       \<comment> \<open>line 129\<close>
  | W_ok_load       \<comment> \<open>line 130, read of \<^verbatim>\<open>successCount\<close>\<close>
  | W_ok_store      \<comment> \<open>line 130, write of \<^verbatim>\<open>successCount\<close>\<close>
  | W_app_load      \<comment> \<open>line 131, read of \<^verbatim>\<open>durations\<close>\<close>
  | W_app_store     \<comment> \<open>line 131, write of \<^verbatim>\<open>durations\<close>\<close>
  | W_ok_unlock     \<comment> \<open>line 132\<close>
  | W_release       \<comment> \<open>line 115, the deferred \<^verbatim>\<open><-sem\<close>\<close>
  | W_done          \<comment> \<open>line 114, the deferred \<^verbatim>\<open>wg.Done()\<close>\<close>
  | W_crash         \<comment> \<open>a panicking goroutine whose deferred calls have run\<close>
  | W_exited

text \<open>
  A worker's locals: its file, \<^verbatim>\<open>retries\<close>, \<^verbatim>\<open>duration\<close>, and the values read from the
  shared variables; \<open>panicking\<close> is the runtime's record that the goroutine is unwinding
  from a panic. \<open>attempts\<close> is a history variable, the outcomes of the worker's
  \<^verbatim>\<open>processImage\<close> calls so far; the program never reads it. \<open>dead\<close> in the state says that
  the runtime has ended the process.
\<close>

record worker =
  wfile :: string
  pc :: wpc
  retries :: nat
  wduration :: duration
  tmp_count :: int
  tmp_durations :: "duration list"
  panicking :: bool
  attempts :: "(perror + duration) list"

record state =
  files :: "string list"
  cap :: nat                      \<comment> \<open>capacity of the channel \<^verbatim>\<open>sem\<close>\<close>
  main_pc :: main_pc
  idx :: nat                      \<comment> \<open>position of the \<^verbatim>\<open>range\<close> loop\<close>
  file_var :: string              \<comment> \<open>the loop variable \<^verbatim>\<open>file\<close>\<close>
  sem :: nat                      \<comment> \<open>number of values buffered in \<^verbatim>\<open>sem\<close>\<close>
  wg :: int                       \<comment> \<open>counter of the \<^verbatim>\<open>WaitGroup\<close>\<close>
  mu :: bool                      \<comment> \<open>whether the mutex is locked\<close>
  successCount :: int
  errorCount :: int
  durations :: "duration list"
  workers :: "worker list"
  dead :: bool

definition new_worker :: "string \<Rightarrow> worker" where
  "new_worker f =
     \<lparr> wfile = f, pc = W_loop, retries = 0, wduration = 0, tmp_count = 0,
       tmp_durations = [], panicking = False, attempts = [] \<rparr>"

definition init_state :: "string list \<Rightarrow> nat \<Rightarrow> state" where
  "init_state fs n =
     \<lparr> files = fs, cap = n, main_pc = M_loop, idx = 0, file_var = [], sem = 0, wg = 0,
       mu = False, successCount = 0, errorCount = 0, durations = [], workers = [],
       dead = False \<rparr>"

definition run_after_config :: "golib \<Rightarrow> env \<Rightarrow> config \<Rightarrow> abort + (config \<times> state)" where
  \<comment> \<open>lines 77--107: the checks, the enumeration of the files and the creation of the
      channel, which panics on a negative size\<close>
  "run_after_config L E cfg =
     (if maxWidth cfg = 0 \<and> maxHeight cfg = 0
        then Inl (Fatal ''Either max width or max height must be specified'' [])
      else case MkdirAll E (outputPath cfg) of
             Some err \<Rightarrow> Inl (Fatal ''Error creating output directory: '' err)
           | None \<Rightarrow>
               (case collect_files [] (WalkEntries E (inputPath cfg)) of
                  Inl err \<Rightarrow> Inl (Fatal ''Error reading input path: '' err)
                | Inr fs \<Rightarrow>
                    if parallelism cfg < 0
                      then Inl (Panic ''makechan: size out of range'')
                    else Inr (cfg, init_state fs (nat (parallelism cfg)))))"

definition run_setup :: "golib \<Rightarrow> env \<Rightarrow> config \<Rightarrow> abort + (config \<times> state)" where
  \<comment> \<open>lines 71--75, then the rest of the set-up\<close>
  "run_setup L E cfg =
     (if configFile cfg \<noteq> []
        then (case readConfig L E (configFile cfg) cfg of
                Inl err \<Rightarrow> Inl (Fatal ''Error reading config file: '' err)
              | Inr cfg' \<Rightarrow> run_after_config L E cfg')
      else run_after_config L E cfg)"

subsection \<open>The goroutines (lines 109--139)\<close>

definition main_step :: "state \<Rightarrow> state option" where
  "main_step s =
     (case main_pc s of
        M_loop \<Rightarrow>
          if idx s < length (files s)
            then Some (s\<lparr>file_var := files s ! idx s, wg := wg s + 1, main_pc := M_send\<rparr>)
          else Some (s\<lparr>main_pc := M_wait\<rparr>)
      | M_send \<Rightarrow>
          if sem s < cap s then Some (s\<lparr>sem := sem s + 1, main_pc := M_go\<rparr>) else None
      | M_go \<Rightarrow>
          Some (s\<lparr>workers := workers s @ [new_worker (file_var s)], idx := idx s + 1,
                  main_pc := M_loop\<rparr>)
      | M_wait \<Rightarrow> if wg s = 0 then Some (s\<lparr>main_pc := M_joined\<rparr>) else None
      | M_joined \<Rightarrow> None)"

definition put_worker :: "nat \<Rightarrow> worker \<Rightarrow> state \<Rightarrow> state" where
  "put_worker i w s = s\<lparr>workers := (workers s)[i := w]\<rparr>"

definition worker_step ::
  "golib \<Rightarrow> config \<Rightarrow> nat \<Rightarrow> nat \<Rightarrow> 'img world \<Rightarrow> state \<Rightarrow> state option" where
  \<comment> \<open>One step of worker \<open>i\<close> with retry bound \<open>mr\<close>; \<open>None\<close> when the worker does not exist,
      has exited or is blocked. The world is consulted by the step that leaves
      \<^verbatim>\<open>processImage\<close>: on a panic the worker goes straight to its deferred calls, with no
      update of a counter, and after them ends the process. Unlocking an unlocked mutex and
      a negative \<^verbatim>\<open>WaitGroup\<close> counter are fatal as well. A receive from the channel takes a
      buffered value; on a channel of capacity 0 it pairs with the main goroutine blocked in
      its send.\<close>
  "worker_step L cfg mr i wld s =
     (if length (workers s) \<le> i then None
      else let w = workers s ! i in
        case pc w of
          W_loop \<Rightarrow>
            Some (put_worker i (w\<lparr>pc := (if retries w < mr then W_call else W_release)\<rparr>) s)
        | W_call \<Rightarrow>
            (case snd (processImage L cfg wld (wfile w)) of
               Inl err \<Rightarrow>
                 if err = RuntimePanic
                   then Some (put_worker i
                     (w\<lparr>attempts := attempts w @ [Inl err], panicking := True,
                        pc := W_release\<rparr>) s)
                 else Some (put_worker i
                   (w\<lparr>attempts := attempts w @ [Inl err], wduration := 0,
                      retries := retries w + 1,
                      pc := (if retries w + 1 = mr then W_err_lock else W_loop)\<rparr>) s)
             | Inr d \<Rightarrow>
                 Some (put_worker i
                   (w\<lparr>attempts := attempts w @ [Inr d], wduration := d, pc := W_ok_lock\<rparr>) s))
        | W_err_lock \<Rightarrow>
            if mu s then None else Some (put_worker i (w\<lparr>pc := W_err_load\<rparr>) (s\<lparr>mu := True\<rparr>))
        | W_err_load \<Rightarrow>
            Some (put_worker i (w\<lparr>tmp_count := errorCount s, pc := W_err_store\<rparr>) s)
        | W_err_store \<Rightarrow>
            Some (put_worker i (w\<lparr>pc := W_err_unlock\<rparr>) (s\<lparr>errorCount := tmp_count w + 1\<rparr>))
        | W_err_unlock \<Rightarrow>
            if mu s then Some (put_worker i (w\<lparr>pc := W_loop\<rparr>) (s\<lparr>mu := False\<rparr>))
            else Some (s\<lparr>dead := True\<rparr>)
        | W_ok_lock \<Rightarrow>
            if mu s then None else Some (put_worker i (w\<lparr>pc := W_ok_load\<rparr>) (s\<lparr>mu := True\<rparr>))
        | W_ok_load \<Rightarrow>
            Some (put_worker i (w\<lparr>tmp_count := successCount s, pc := W_ok_store\<rparr>) s)
        | W_ok_store \<Rightarrow>
            Some (put_worker i (w\<lparr>pc := W_app_load\<rparr>) (s\<lparr>successCount := tmp_count w + 1\<rparr>))
        | W_app_load \<Rightarrow>
            Some (put_worker i (w\<lparr>tmp_durations := durations s, pc := W_app_store\<rparr>) s)
        | W_app_store \<Rightarrow>
            Some (put_worker i (w\<lparr>pc := W_ok_unlock\<rparr>)
                    (s\<lparr>durations := tmp_durations w @ [wduration w]\<rparr>))
        | W_ok_unlock \<Rightarrow>
            if mu s then Some (put_worker i (w\<lparr>pc := W_release\<rparr>) (s\<lparr>mu := False\<rparr>))
            else Some (s\<lparr>dead := True\<rparr>)
        | W_release \<Rightarrow>
            if 0 < sem s then Some (put_worker i (w\<lparr>pc := W_done\<rparr>) (s\<lparr>sem := sem s - 1\<rparr>))
            else if cap s = 0 \<and> main_pc s = M_send
              then Some (put_worker i (w\<lparr>pc := W_done\<rparr>) (s\<lparr>main_pc := M_go\<rparr>))
            else None
        | W_done \<Rightarrow>
            if wg s - 1 < 0 then Some (s\<lparr>dead := True\<rparr>)
            else Some (put_worker i (w\<lparr>pc := (if panicking w then W_crash else W_exited)\<rparr>)
                         (s\<lparr>wg := wg s - 1\<rparr>))
        | W_crash \<Rightarrow> Some (put_worker i (w\<lparr>pc := W_exited\<rparr>) (s\<lparr>dead := True\<rparr>))
        | W_exited \<Rightarrow> None)"

text \<open>
  A schedule is the order in which the goroutines take their steps, with the world each
  \<^verbatim>\<open>processImage\<close> call meets. Every behaviour of the program is the execution of some
  schedule; a schedule that asks a blocked goroutine to move, or any goroutine to move
  after the process has ended, has no execution.
\<close>

datatype 'img event = Main | Work nat "'img world"

definition step :: "golib \<Rightarrow> config \<Rightarrow> nat \<Rightarrow> 'img event \<Rightarrow> state \<Rightarrow> state option" where
  "step L cfg mr ev s =
     (if dead s then None
      else case ev of
             Main \<Rightarrow> main_step s
           | Work i wld \<Rightarrow> worker_step L cfg mr i wld s)"

fun exec :: "golib \<Rightarrow> config \<Rightarrow> nat \<Rightarrow> 'img event list \<Rightarrow> state \<Rightarrow> state option" where
  "exec L cfg mr [] s = Some s"
| "exec L cfg mr (ev # evs) s =
     (case step L cfg mr ev s of
        None \<Rightarrow> None
      | Some s' \<Rightarrow> exec L cfg mr evs s')"

subsection \<open>The whole of \<^verbatim>\<open>run\<close>\<close>

datatype outcome =
    Aborted abort
  | Incomplete
  | Completed string string

definition run ::
  "golib \<Rightarrow> env \<Rightarrow> config \<Rightarrow> 'img event list \<Rightarrow> duration \<Rightarrow> outcome" where
  \<comment> \<open>Set-up, the goroutines under the given schedule with \<^verbatim>\<open>maxRetries\<close> attempts, then
      lines 140--144 with the measured wall-clock time. \<open>Incomplete\<close>: the schedule is not
      an execution, or it ends before \<^verbatim>\<open>wg.Wait()\<close> has returned. A schedule that ends
      after the wait has returned and before a panicking worker has ended the process is a
      run in which the report is written.\<close>
  "run L E cfg evs total_elapsed =
     (case run_setup L E cfg of
        Inl a \<Rightarrow> Aborted a
      | Inr (cfg', s0) \<Rightarrow>
          (case exec L cfg' maxRetries evs s0 of
             None \<Rightarrow> Incomplete
           | Some s \<Rightarrow>
               if dead s then Aborted (Panic ''panic in a worker goroutine'')
               else if main_pc s = M_joined
                 then (case generateSummaryReport L E cfg' (int (length (files s)))
                               (successCount s) (errorCount s) total_elapsed (durations s) of
                         Inl a \<Rightarrow> Aborted a
                       | Inr (path, text) \<Rightarrow> Completed path text)
               else Incomplete))"

section \<open>Invariants of the run\<close>

text \<open>
  The quantities that tie the shared variables to the places of the goroutines. \<open>ind\<close>
  turns a condition into a summand; the predicates on \<open>wpc\<close> name groups of places.
\<close>

definition ind :: "bool \<Rightarrow> int" where
  "ind b = (if b then 1 else 0)"

fun cs_pc :: "wpc \<Rightarrow> bool" where
  "cs_pc W_err_load = True"
| "cs_pc W_err_store = True"
| "cs_pc W_err_unlock = True"
| "cs_pc W_ok_load = True"
| "cs_pc W_ok_store = True"
| "cs_pc W_app_load = True"
| "cs_pc W_app_store = True"
| "cs_pc W_ok_unlock = True"
| "cs_pc _ = False"

fun exit_pc :: "wpc \<Rightarrow> bool" where
  "exit_pc W_release = True"
| "exit_pc W_done = True"
| "exit_pc W_crash = True"
| "exit_pc W_exited = True"
| "exit_pc _ = False"

fun err_pc :: "wpc \<Rightarrow> bool" where
  "err_pc W_err_lock = True"
| "err_pc W_err_load = True"
| "err_pc W_err_store = True"
| "err_pc W_err_unlock = True"
| "err_pc _ = False"

fun slot_pc :: "wpc \<Rightarrow> bool" where
  "slot_pc W_done = False"
| "slot_pc W_crash = False"
| "slot_pc W_exited = False"
| "slot_pc _ = True"

fun stored_pc :: "wpc \<Rightarrow> bool" where
  "stored_pc W_app_load = True"
| "stored_pc W_app_store = True"
| "stored_pc W_ok_unlock = True"
| "stored_pc _ = False"

fun gone_pc :: "wpc \<Rightarrow> bool" where
  "gone_pc W_crash = True"
| "gone_pc W_exited = True"
| "gone_pc _ = False"

definition holds_slot :: "worker \<Rightarrow> int" where
  "holds_slot w = ind (slot_pc (pc w))"

definition alive :: "worker \<Rightarrow> int" where
  "alive w = ind (\<not> gone_pc (pc w))"

definition in_call :: "worker \<Rightarrow> int" where
  "in_call w = ind (pc w = W_call)"

definition in_cs :: "worker \<Rightarrow> int" where
  "in_cs w = ind (cs_pc (pc w))"

definition counted_success :: "nat \<Rightarrow> worker \<Rightarrow> int" where
  "counted_success mr w =
     ind (stored_pc (pc w) \<or> (exit_pc (pc w) \<and> retries w < mr \<and> \<not> panicking w))"

definition appended :: "nat \<Rightarrow> worker \<Rightarrow> duration multiset" where
  "appended mr w =
     (if pc w = W_ok_unlock \<or> (exit_pc (pc w) \<and> retries w < mr \<and> \<not> panicking w)
      then {#wduration w#} else {#})"

definition counted_error :: "nat \<Rightarrow> worker \<Rightarrow> int" where
  "counted_error mr w =
     ind (pc w = W_err_unlock \<or> ((pc w = W_loop \<or> exit_pc (pc w)) \<and> mr \<le> retries w))"

definition inv_struct :: "state \<Rightarrow> bool" where
  "inv_struct s \<longleftrightarrow>
     length (workers s) = idx s \<and> idx s \<le> length (files s) \<and>
     map wfile (workers s) = take (idx s) (files s) \<and>
     (main_pc s = M_send \<or> main_pc s = M_go \<longrightarrow>
        idx s < length (files s) \<and> file_var s = files s ! idx s) \<and>
     (main_pc s = M_wait \<or> main_pc s = M_joined \<longrightarrow> idx s = length (files s))"

definition inv_sem :: "state \<Rightarrow> bool" where
  "inv_sem s \<longleftrightarrow>
     int (sem s) = sum_list (map holds_slot (workers s)) + ind (main_pc s = M_go) \<and>
     sem s \<le> cap s"

definition inv_wg :: "state \<Rightarrow> bool" where
  "inv_wg s \<longleftrightarrow>
     wg s = sum_list (map alive (workers s)) + ind (main_pc s = M_send \<or> main_pc s = M_go) \<and>
     (main_pc s = M_joined \<longrightarrow> wg s = 0)"

definition inv_mu :: "state \<Rightarrow> bool" where
  "inv_mu s \<longleftrightarrow> sum_list (map in_cs (workers s)) = ind (mu s)"

definition inv_tmp :: "state \<Rightarrow> bool" where
  "inv_tmp s \<longleftrightarrow>
     (\<forall>j < length (workers s).
        (pc (workers s ! j) = W_err_store \<longrightarrow> tmp_count (workers s ! j) = errorCount s) \<and>
        (pc (workers s ! j) = W_ok_store \<longrightarrow> tmp_count (workers s ! j) = successCount s) \<and>
        (pc (workers s ! j) = W_app_store \<longrightarrow> tmp_durations (workers s ! j) = durations s))"

definition inv_counts :: "nat \<Rightarrow> state \<Rightarrow> bool" where
  "inv_counts mr s \<longleftrightarrow>
     successCount s = sum_list (map (counted_success mr) (workers s)) \<and>
     errorCount s = sum_list (map (counted_error mr) (workers s)) \<and>
     mset (durations s) = sum_list (map (appended mr) (workers s))"

definition returned_error :: "perror + duration \<Rightarrow> bool" where
  "returned_error r \<longleftrightarrow> isl r \<and> r \<noteq> Inl RuntimePanic"

definition hist_failed :: "worker \<Rightarrow> bool" where
  "hist_failed w \<longleftrightarrow>
     (\<forall>r \<in> set (attempts w). returned_error r) \<and> length (attempts w) = retries w"

definition hist_succeeded :: "worker \<Rightarrow> bool" where
  "hist_succeeded w \<longleftrightarrow>
     attempts w \<noteq> [] \<and> last (attempts w) = Inr (wduration w) \<and>
     (\<forall>r \<in> set (butlast (attempts w)). returned_error r) \<and>
     length (attempts w) = retries w + 1"

definition hist_panicked :: "worker \<Rightarrow> bool" where
  "hist_panicked w \<longleftrightarrow>
     attempts w \<noteq> [] \<and> last (attempts w) = Inl RuntimePanic \<and>
     (\<forall>r \<in> set (butlast (attempts w)). returned_error r) \<and>
     length (attempts w) = retries w + 1"

definition wf_worker :: "nat \<Rightarrow> worker \<Rightarrow> bool" where
  "wf_worker mr w \<longleftrightarrow>
     (if pc w = W_loop then hist_failed w \<and> retries w \<le> mr \<and> \<not> panicking w
      else if pc w = W_call then hist_failed w \<and> retries w < mr \<and> \<not> panicking w
      else if err_pc (pc w) then hist_failed w \<and> retries w = mr \<and> \<not> panicking w
      else if exit_pc (pc w)
        then (hist_succeeded w \<and> retries w < mr \<and> \<not> panicking w \<and> pc w \<noteq> W_crash) \<or>
             (hist_failed w \<and> retries w = mr \<and> \<not> panicking w \<and> pc w \<noteq> W_crash) \<or>
             (hist_panicked w \<and> retries w < mr \<and> panicking w)
      else hist_succeeded w \<and> retries w < mr \<and> \<not> panicking w)"

definition inv_local :: "nat \<Rightarrow> state \<Rightarrow> bool" where
  "inv_local mr s \<longleftrightarrow> (\<forall>w \<in> set (workers s). wf_worker mr w)"

definition inv_safe :: "state \<Rightarrow> bool" where
  "inv_safe s \<longleftrightarrow> inv_sem s \<and> inv_wg s \<and> inv_mu s"

definition inv :: "nat \<Rightarrow> state \<Rightarrow> bool" where
  "inv mr s \<longleftrightarrow>
     inv_struct s \<and> inv_sem s \<and> inv_wg s \<and> inv_mu s \<and> inv_tmp s \<and> inv_counts mr s \<and>
     inv_local mr s"

text \<open>
  The outcome of a job, read off the history of its calls: its last call returned a
  duration; one of its calls panicked; every one of its calls returned an error.
\<close>

definition job_succeeded :: "worker \<Rightarrow> bool" where
  "job_succeeded w \<longleftrightarrow> attempts w \<noteq> [] \<and> \<not> isl (last (attempts w))"

definition job_panicked :: "worker \<Rightarrow> bool" where
  "job_panicked w \<longleftrightarrow> Inl RuntimePanic \<in> set (attempts w)"

definition job_failed :: "worker \<Rightarrow> bool" where
  "job_failed w \<longleftrightarrow> (\<forall>r \<in> set (attempts w). isl r) \<and> \<not> job_panicked w"

definition job_durations :: "worker \<Rightarrow> duration list" where
  "job_durations w =
     (if attempts w = [] then []
      else case last (attempts w) of Inl err \<Rightarrow> [] | Inr d \<Rightarrow> [d])"



definition inv_no_slot :: "state \<Rightarrow> bool" where
  "inv_no_slot s \<longleftrightarrow>
     cap s = 0 \<and> workers s = [] \<and> idx s = 0 \<and> sem s = 0 \<and>
     successCount s = 0 \<and> errorCount s = 0 \<and> durations s = [] \<and>
     (main_pc s = M_loop \<or> main_pc s = M_send \<or>
      (main_pc s = M_wait \<or> main_pc s = M_joined) \<and> files s = [])"

definition supported :: "string \<Rightarrow> bool" where
  "supported fmt \<longleftrightarrow> fmt = ''jpeg'' \<or> fmt = ''png'' \<or> fmt = ''gif'' \<or> fmt = ''bmp''"

definition report_lines_spec ::
  "golib \<Rightarrow> int \<Rightarrow> int \<Rightarrow> int \<Rightarrow> duration \<Rightarrow> duration list \<Rightarrow> string list" where
  \<comment> \<open>The lines of the report as the specification lists them: five header lines, then
      one numbered line for each recorded duration, numbered from 1.\<close>
  "report_lines_spec L n_total success errors d ds =
     [''Summary Report:'',
      ''Total images processed: '' @ fmt_d n_total,
      ''Successfully processed: '' @ fmt_d success,
      ''Errors encountered: '' @ fmt_d errors,
      ''Total time taken: '' @ DurationString L d] @
     map (\<lambda>(i, x). ''Image '' @ fmt_d (int i) @ '' processing time: '' @ DurationString L x)
       (enumerate 1 ds)"

text \<open>
  A bound on the number of steps a state has left: every step of a goroutine lowers it.
\<close>

fun pc_rank :: "nat \<Rightarrow> nat \<Rightarrow> wpc \<Rightarrow> nat" where
  "pc_rank mr r W_loop = (if r < mr then 2 * (mr - r) + 10 else 4)"
| "pc_rank mr r W_call = 2 * (mr - r) + 9"
| "pc_rank mr r W_err_lock = 8"
| "pc_rank mr r W_err_load = 7"
| "pc_rank mr r W_err_store = 6"
| "pc_rank mr r W_err_unlock = 5"
| "pc_rank mr r W_ok_lock = 9"
| "pc_rank mr r W_ok_load = 8"
| "pc_rank mr r W_ok_store = 7"
| "pc_rank mr r W_app_load = 6"
| "pc_rank mr r W_app_store = 5"
| "pc_rank mr r W_ok_unlock = 4"
| "pc_rank mr r W_release = 3"
| "pc_rank mr r W_done = 2"
| "pc_rank mr r W_crash = 1"
| "pc_rank mr r W_exited = 0"

definition worker_rank :: "nat \<Rightarrow> worker \<Rightarrow> nat" where
  "worker_rank mr w = pc_rank mr (retries w) (pc w)"

fun main_rank :: "main_pc \<Rightarrow> nat" where
  "main_rank M_loop = 2"
| "main_rank M_send = 1"
| "main_rank M_go = 0"
| "main_rank M_wait = 1"
| "main_rank M_joined = 0"

definition steps_left :: "nat \<Rightarrow> state \<Rightarrow> nat" where
  "steps_left mr s =
     (length (files s) - idx s) * (3 + pc_rank mr 0 W_loop) + main_rank (main_pc s) +
     sum_list (map (worker_rank mr) (workers s))"

section \<open>Example inputs\<close>

text \<open>Concrete libraries, file systems and flag values on which the theorems below are
  instantiated.\<close>

definition golib0 :: golib where
  "golib0 =
     \<lparr> Clean = (\<lambda>p. p),
       Unmarshal = (\<lambda>data. Inr (map_of [(''width'', JNumber 200), (''format'', JString ''png''),
                                          (''input'', JBool True)])),
       DurationString = (\<lambda>d. fmt_d d @ ''ns''),
       float64_overflow = (\<lambda>v. - (2 ^ 63)) \<rparr>"

definition env0 :: env where
  "env0 =
     \<lparr> ReadFile = (\<lambda>p. Inr ''{}''),
       MkdirAll = (\<lambda>p. None),
       WalkEntries = (\<lambda>p. [(''in'', True, None), (''in/a.png'', False, None),
                             (''in/b.cr3'', False, None)]),
       WriteFile = (\<lambda>p t. None) \<rparr>"

definition flags0 :: config where
  "flags0 = (default_flags 2)\<lparr>inputPath := ''in'', outputPath := ''out''\<rparr>"

definition world_ok :: "nat world" where
  "world_ok =
     \<lparr> exiftool = (\<lambda>f. None),
       os_Open = (\<lambda>f. Inr ''bytes''),
       image_Decode = (\<lambda>b. Inr 0),
       imaging_Fit = (\<lambda>img w h. img + 1),
       resize_Resize = (\<lambda>w h img. img + 2),
       imaging_Save = (\<lambda>img p opts. None),
       elapsed = 7,
       panic_at = None \<rparr>"

definition world_bad :: "nat world" where
  "world_bad = world_ok\<lparr>os_Open := (\<lambda>f. Inl ''no such file'')\<rparr>"

definition flags1 :: config where
  "flags1 = flags0\<lparr>maxWidth := 200\<rparr>"

definition sched2 :: "nat event list" where
  "sched2 =
     [Main, Main, Main, Work 0 world_ok, Main, Main, Main, Work 1 world_bad,
      Work 0 world_ok, Work 1 world_bad,
      Work 0 world_ok, Work 0 world_ok, Work 0 world_ok, Work 0 world_ok, Work 0 world_ok,
      Work 0 world_ok,
      Work 1 world_bad, Work 1 world_bad, Work 1 world_bad, Work 1 world_bad, Work 1 world_bad,
      Work 0 world_ok, Work 0 world_ok, Work 1 world_bad, Work 1 world_bad,
      Main, Main]"



definition sched_retry :: "nat event list" where
  "sched_retry =
     [Main, Main, Main,
      Work 0 world_ok, Work 0 world_bad, Work 0 world_ok, Work 0 world_ok,
      Work 0 world_ok, Work 0 world_ok, Work 0 world_ok, Work 0 world_ok, Work 0 world_ok,
      Work 0 world_ok,
      Work 0 world_ok, Work 0 world_ok,
      Main, Main]"



definition world_panic :: "nat world" where
  "world_panic = world_ok\<lparr>panic_at := Some Call_resize\<rparr>"

definition env_one :: env where
  "env_one = env0\<lparr>WalkEntries := (\<lambda>p. [(''in'', True, None), (''in/a.png'', False, None)])\<rparr>"

definition sched_panic :: "nat event list" where
  "sched_panic =
     [Main, Main, Main,
      Work 0 world_ok, Work 0 world_panic, Work 0 world_ok, Work 0 world_ok,
      Main, Main]"

definition env_nofiles :: env where
  "env_nofiles = env0\<lparr>WalkEntries := (\<lambda>p. [(''in'', True, None)])\<rparr>"

section \<open>The invariant holds along every execution\<close>

lemma sum_list_map_update_int:
  fixes f :: "'a \<Rightarrow> int"
  shows "i < length xs \<Longrightarrow> sum_list (map f (xs[i := y])) = sum_list (map f xs) - f (xs ! i) + f y"
  by (induction xs arbitrary: i) (auto split: nat.splits)

lemma sum_list_map_update_mset:
  fixes f :: "'a \<Rightarrow> 'b multiset"
  shows "i < length xs \<Longrightarrow> sum_list (map f (xs[i := y])) + f (xs ! i) = sum_list (map f xs) + f y"
  by (induction xs arbitrary: i) (auto split: nat.splits)

lemma ball_set_update:
  "\<forall>w \<in> set xs. P w \<Longrightarrow> P y \<Longrightarrow> \<forall>w \<in> set (xs[i := y]). P w"
  using set_update_subset_insert [of xs i y] by auto

lemma put_worker_simps [simp]:
  "workers (put_worker i w s) = (workers s)[i := w]"
  "files (put_worker i w s) = files s"
  "cap (put_worker i w s) = cap s"
  "main_pc (put_worker i w s) = main_pc s"
  "idx (put_worker i w s) = idx s"
  "file_var (put_worker i w s) = file_var s"
  "sem (put_worker i w s) = sem s"
  "wg (put_worker i w s) = wg s"
  "mu (put_worker i w s) = mu s"
  "successCount (put_worker i w s) = successCount s"
  "errorCount (put_worker i w s) = errorCount s"
  "durations (put_worker i w s) = durations s"
  "dead (put_worker i w s) = dead s"
  by (simp_all add: put_worker_def)

lemma nth_le_sum_list_int:
  fixes f :: "'a \<Rightarrow> int"
  assumes "\<And>x. 0 \<le> f x" and "i < length xs"
  shows "f (xs ! i) \<le> sum_list (map f xs)"
proof -
  have a: "sum_list (map f xs) = (\<Sum>k = 0..<length xs. f (xs ! k))"
    by (simp add: sum_list_sum_nth)
  have "(\<Sum>k \<in> {i}. f (xs ! k)) \<le> (\<Sum>k = 0..<length xs. f (xs ! k))"
    by (rule sum_mono2) (use assms in auto)
  with a show ?thesis by simp
qed

lemma two_le_sum_list_int:
  fixes f :: "'a \<Rightarrow> int"
  assumes "\<And>x. 0 \<le> f x" and "i < length xs" and "j < length xs" and "i \<noteq> j"
  shows "f (xs ! i) + f (xs ! j) \<le> sum_list (map f xs)"
proof -
  have a: "sum_list (map f xs) = (\<Sum>k = 0..<length xs. f (xs ! k))"
    by (simp add: sum_list_sum_nth)
  have "(\<Sum>k \<in> {i, j}. f (xs ! k)) \<le> (\<Sum>k = 0..<length xs. f (xs ! k))"
    by (rule sum_mono2) (use assms in auto)
  with a assms(4) show ?thesis by simp
qed

lemma ind_nonneg [simp]: "0 \<le> ind b"
  by (simp add: ind_def)

lemma ind_simps [simp]: "ind True = 1" "ind False = 0"
  by (simp_all add: ind_def)

lemma worker_step_index: "worker_step L cfg mr i wld s = Some s' \<Longrightarrow> i < length (workers s)"
  by (cases "length (workers s) \<le> i") (simp_all add: worker_step_def)


lemma main_step_struct:
  "inv_struct s \<Longrightarrow> main_step s = Some s' \<Longrightarrow> inv_struct s'"
  by (cases "main_pc s")
     (auto simp: inv_struct_def main_step_def new_worker_def take_Suc_conv_app_nth
           split: if_splits)

lemma worker_step_cases [consumes 2, case_names loop call_panic call_err call_ok err_lock
    err_load err_store err_unlock ok_lock ok_load ok_store app_load app_store ok_unlock release
    wg_done crash]:
  fixes s :: state and i :: nat
  defines "w \<equiv> workers s ! i"
  assumes step: "worker_step L cfg mr i wld s = Some s'" and safe: "inv_safe s"
  obtains
    (loop) "pc w = W_loop"
      "s' = put_worker i (w\<lparr>pc := (if retries w < mr then W_call else W_release)\<rparr>) s"
  | (call_panic) "pc w = W_call" "snd (processImage L cfg wld (wfile w)) = Inl RuntimePanic"
      "s' = put_worker i (w\<lparr>attempts := attempts w @ [Inl RuntimePanic], panicking := True,
              pc := W_release\<rparr>) s"
  | (call_err) err where "pc w = W_call" "snd (processImage L cfg wld (wfile w)) = Inl err"
      "err \<noteq> RuntimePanic"
      "s' = put_worker i (w\<lparr>attempts := attempts w @ [Inl err], wduration := 0,
              retries := retries w + 1,
              pc := (if retries w + 1 = mr then W_err_lock else W_loop)\<rparr>) s"
  | (call_ok) d where "pc w = W_call" "snd (processImage L cfg wld (wfile w)) = Inr d"
      "s' = put_worker i (w\<lparr>attempts := attempts w @ [Inr d], wduration := d, pc := W_ok_lock\<rparr>) s"
  | (err_lock) "pc w = W_err_lock" "\<not> mu s"
      "s' = put_worker i (w\<lparr>pc := W_err_load\<rparr>) (s\<lparr>mu := True\<rparr>)"
  | (err_load) "pc w = W_err_load"
      "s' = put_worker i (w\<lparr>tmp_count := errorCount s, pc := W_err_store\<rparr>) s"
  | (err_store) "pc w = W_err_store"
      "s' = put_worker i (w\<lparr>pc := W_err_unlock\<rparr>) (s\<lparr>errorCount := tmp_count w + 1\<rparr>)"
  | (err_unlock) "pc w = W_err_unlock" "mu s"
      "s' = put_worker i (w\<lparr>pc := W_loop\<rparr>) (s\<lparr>mu := False\<rparr>)"
  | (ok_lock) "pc w = W_ok_lock" "\<not> mu s"
      "s' = put_worker i (w\<lparr>pc := W_ok_load\<rparr>) (s\<lparr>mu := True\<rparr>)"
  | (ok_load) "pc w = W_ok_load"
      "s' = put_worker i (w\<lparr>tmp_count := successCount s, pc := W_ok_store\<rparr>) s"
  | (ok_store) "pc w = W_ok_store"
      "s' = put_worker i (w\<lparr>pc := W_app_load\<rparr>) (s\<lparr>successCount := tmp_count w + 1\<rparr>)"
  | (app_load) "pc w = W_app_load"
      "s' = put_worker i (w\<lparr>tmp_durations := durations s, pc := W_app_store\<rparr>) s"
  | (app_store) "pc w = W_app_store"
      "s' = put_worker i (w\<lparr>pc := W_ok_unlock\<rparr>) (s\<lparr>durations := tmp_durations w @ [wduration w]\<rparr>)"
  | (ok_unlock) "pc w = W_ok_unlock" "mu s"
      "s' = put_worker i (w\<lparr>pc := W_release\<rparr>) (s\<lparr>mu := False\<rparr>)"
  | (release) "pc w = W_release" "0 < sem s"
      "s' = put_worker i (w\<lparr>pc := W_done\<rparr>) (s\<lparr>sem := sem s - 1\<rparr>)"
  | (wg_done) "pc w = W_done" "0 < wg s"
      "s' = put_worker i (w\<lparr>pc := (if panicking w then W_crash else W_exited)\<rparr>)
              (s\<lparr>wg := wg s - 1\<rparr>)"
  | (crash) "pc w = W_crash"
      "s' = put_worker i (w\<lparr>pc := W_exited\<rparr>) (s\<lparr>dead := True\<rparr>)"
proof -
  from step have i: "i < length (workers s)" by (rule worker_step_index)
  have cs: "in_cs w \<le> ind (mu s)"
  proof -
    have "in_cs w \<le> sum_list (map in_cs (workers s))"
      unfolding w_def by (rule nth_le_sum_list_int) (simp_all add: in_cs_def i)
    with safe show ?thesis by (simp add: inv_safe_def inv_mu_def)
  qed
  have al: "alive w \<le> wg s"
  proof -
    have "alive w \<le> sum_list (map alive (workers s))"
      unfolding w_def by (rule nth_le_sum_list_int) (simp_all add: alive_def i)
    moreover have "0 \<le> ind (main_pc s = M_send \<or> main_pc s = M_go)" by simp
    moreover from safe have
      "wg s = sum_list (map alive (workers s)) + ind (main_pc s = M_send \<or> main_pc s = M_go)"
      by (simp add: inv_safe_def inv_wg_def)
    ultimately show ?thesis by linarith
  qed
  have hs: "holds_slot w \<le> int (sem s)"
  proof -
    have "holds_slot w \<le> sum_list (map holds_slot (workers s))"
      unfolding w_def by (rule nth_le_sum_list_int) (simp_all add: holds_slot_def i)
    moreover have "0 \<le> ind (main_pc s = M_go)" by simp
    moreover from safe have
      "int (sem s) = sum_list (map holds_slot (workers s)) + ind (main_pc s = M_go)"
      by (simp add: inv_safe_def inv_sem_def)
    ultimately show ?thesis by linarith
  qed
  note step' = step [unfolded worker_step_def Let_def, folded w_def]
  note sd = w_def [symmetric]
  show thesis
  proof (cases "pc w")
    case W_loop
    with step' i show ?thesis by (intro loop) simp_all
  next
    case W_call
    with step' i show ?thesis
      by (cases "snd (processImage L cfg wld (wfile w))")
         (auto intro: call_panic call_err call_ok split: if_splits)
  next
    case W_err_lock
    with step' i show ?thesis by (intro err_lock) (simp_all split: if_splits)
  next
    case W_err_load
    with step' i show ?thesis by (intro err_load) simp_all
  next
    case W_err_store
    with step' i show ?thesis by (intro err_store) simp_all
  next
    case W_err_unlock
    with cs have "mu s" by (cases "mu s") (simp_all add: in_cs_def)
    with step' i W_err_unlock show ?thesis by (intro err_unlock) simp_all
  next
    case W_ok_lock
    with step' i show ?thesis by (intro ok_lock) (simp_all split: if_splits)
  next
    case W_ok_load
    with step' i show ?thesis by (intro ok_load) simp_all
  next
    case W_ok_store
    with step' i show ?thesis by (intro ok_store) simp_all
  next
    case W_app_load
    with step' i show ?thesis by (intro app_load) simp_all
  next
    case W_app_store
    with step' i show ?thesis by (intro app_store) simp_all
  next
    case W_ok_unlock
    with cs have "mu s" by (cases "mu s") (simp_all add: in_cs_def)
    with step' i W_ok_unlock show ?thesis by (intro ok_unlock) simp_all
  next
    case W_release
    with hs have "0 < sem s" by (simp add: holds_slot_def)
    with step' i W_release show ?thesis by (intro release) simp_all
  next
    case W_done
    with al have "0 < wg s" by (simp add: alive_def)
    with step' i W_done show ?thesis by (intro wg_done) simp_all
  next
    case W_crash
    with step' i show ?thesis by (intro crash) simp_all
  next
    case W_exited
    with step' i show ?thesis by simp
  qed
qed

lemma map_update_same:
  "i < length xs \<Longrightarrow> f y = f (xs ! i) \<Longrightarrow> map f (xs[i := y]) = map f xs"
  by (simp add: map_update list_update_same_conv)

lemma worker_step_struct:
  assumes "worker_step L cfg mr i wld s = Some s'" and "inv_safe s" and "inv_struct s"
  shows "inv_struct s'"
proof -
  from assms(1) have i: "i < length (workers s)" by (rule worker_step_index)
  from assms(1,2) show ?thesis
    by (cases rule: worker_step_cases)
       (use assms(3) i in \<open>simp_all add: inv_struct_def map_update_same\<close>)
qed

lemma worker_step_sem:
  assumes "worker_step L cfg mr i wld s = Some s'" and "inv_safe s"
  shows "inv_sem s'"
proof -
  from assms(1) have i: "i < length (workers s)" by (rule worker_step_index)
  from assms(2) have sem: "inv_sem s" by (simp add: inv_safe_def)
  from assms(1,2) show ?thesis
    by (cases rule: worker_step_cases)
       (use sem i in \<open>auto simp add: inv_sem_def sum_list_map_update_int holds_slot_def\<close>)
qed

lemma worker_step_wg:
  assumes "worker_step L cfg mr i wld s = Some s'" and "inv_safe s"
  shows "inv_wg s'"
proof -
  from assms(1) have i: "i < length (workers s)" by (rule worker_step_index)
  from assms(2) have wg: "inv_wg s" by (simp add: inv_safe_def)
  from assms(1,2) show ?thesis
    by (cases rule: worker_step_cases)
       (use wg i in \<open>auto simp add: inv_wg_def sum_list_map_update_int alive_def\<close>)
qed

lemma worker_step_mu:
  assumes "worker_step L cfg mr i wld s = Some s'" and "inv_safe s"
  shows "inv_mu s'"
proof -
  from assms(1) have i: "i < length (workers s)" by (rule worker_step_index)
  from assms(2) have mu: "inv_mu s" by (simp add: inv_safe_def)
  from assms(1,2) show ?thesis
    by (cases rule: worker_step_cases)
       (use mu i in \<open>simp_all add: inv_mu_def sum_list_map_update_int in_cs_def\<close>)
qed

lemma cs_unique:
  assumes "inv_mu s" and "i < length (workers s)" and "j < length (workers s)"
    and "cs_pc (pc (workers s ! i))" and "cs_pc (pc (workers s ! j))"
  shows "i = j"
proof (rule ccontr)
  assume "i \<noteq> j"
  then have "in_cs (workers s ! i) + in_cs (workers s ! j) \<le> sum_list (map in_cs (workers s))"
    using assms(2,3) by (intro two_le_sum_list_int) (simp_all add: in_cs_def)
  moreover have "ind (mu s) \<le> 1" by (simp add: ind_def)
  ultimately show False using assms(1,4,5) by (simp add: inv_mu_def in_cs_def)
qed

lemma worker_step_tmp:
  assumes "worker_step L cfg mr i wld s = Some s'" and "inv_safe s" and "inv_tmp s"
  shows "inv_tmp s'"
proof -
  from assms(1) have i: "i < length (workers s)" by (rule worker_step_index)
  from assms(2) have mu: "inv_mu s" by (simp add: inv_safe_def)
  have other: "\<not> cs_pc (pc (workers s ! j))"
    if "cs_pc (pc (workers s ! i))" "j < length (workers s)" "j \<noteq> i" for j
    using cs_unique [OF mu i that(2) that(1)] that(3) by auto
  from assms(1,2) show ?thesis
  proof (cases rule: worker_step_cases)
    case err_store
    with other have "\<forall>j < length (workers s). j \<noteq> i \<longrightarrow> \<not> cs_pc (pc (workers s ! j))" by simp
    with err_store assms(3) i show ?thesis
      by (auto simp add: inv_tmp_def nth_list_update)
  next
    case ok_store
    with other have "\<forall>j < length (workers s). j \<noteq> i \<longrightarrow> \<not> cs_pc (pc (workers s ! j))" by simp
    with ok_store assms(3) i show ?thesis
      by (auto simp add: inv_tmp_def nth_list_update)
  next
    case app_store
    with other have "\<forall>j < length (workers s). j \<noteq> i \<longrightarrow> \<not> cs_pc (pc (workers s ! j))" by simp
    with app_store assms(3) i show ?thesis
      by (auto simp add: inv_tmp_def nth_list_update)
  qed (use assms(3) i in \<open>auto simp add: inv_tmp_def nth_list_update\<close>)
qed

lemma worker_step_local:
  assumes "worker_step L cfg mr i wld s = Some s'" and "inv_safe s" and "inv_local mr s"
  shows "inv_local mr s'"
proof -
  from assms(1) have i: "i < length (workers s)" by (rule worker_step_index)
  with assms(3) have wf: "wf_worker mr (workers s ! i)" by (simp add: inv_local_def)
  from assms(3) have all: "\<forall>w \<in> set (workers s). wf_worker mr w" by (simp add: inv_local_def)
  from assms(1,2) have upd: "workers s' = (workers s)[i := workers s' ! i]"
    by (cases rule: worker_step_cases) (use i in simp_all)
  from assms(1,2) have "wf_worker mr (workers s' ! i)"
    by (cases rule: worker_step_cases)
       (use wf i in \<open>auto simp add: wf_worker_def hist_failed_def hist_succeeded_def
                     hist_panicked_def returned_error_def split: if_splits\<close>)
  from ball_set_update [OF all this, of i] upd show ?thesis
    by (simp add: inv_local_def)
qed

lemma sum_list_map_update_mset_same:
  fixes f :: "'a \<Rightarrow> 'b multiset"
  shows "i < length xs \<Longrightarrow> f y = f (xs ! i) \<Longrightarrow> sum_list (map f (xs[i := y])) = sum_list (map f xs)"
  using sum_list_map_update_mset [of i xs f y] by simp

lemma sum_list_map_update_mset_new:
  fixes f :: "'a \<Rightarrow> 'b multiset"
  shows "i < length xs \<Longrightarrow> f (xs ! i) = {#} \<Longrightarrow>
    sum_list (map f (xs[i := y])) = sum_list (map f xs) + f y"
  using sum_list_map_update_mset [of i xs f y] by simp

lemma worker_step_counts:
  assumes "worker_step L cfg mr i wld s = Some s'" and "inv_safe s" and "inv_tmp s"
    and "inv_local mr s" and "inv_counts mr s"
  shows "inv_counts mr s'"
proof -
  from assms(1) have i: "i < length (workers s)" by (rule worker_step_index)
  with assms(4) have wf: "wf_worker mr (workers s ! i)" by (simp add: inv_local_def)
  from assms(3) i have tmp:
    "pc (workers s ! i) = W_err_store \<longrightarrow> tmp_count (workers s ! i) = errorCount s"
    "pc (workers s ! i) = W_ok_store \<longrightarrow> tmp_count (workers s ! i) = successCount s"
    "pc (workers s ! i) = W_app_store \<longrightarrow> tmp_durations (workers s ! i) = durations s"
    by (simp_all add: inv_tmp_def)
  from assms(5) have c:
    "successCount s = sum_list (map (counted_success mr) (workers s))"
    "errorCount s = sum_list (map (counted_error mr) (workers s))"
    "mset (durations s) = sum_list (map (appended mr) (workers s))"
    by (simp_all add: inv_counts_def)
  from assms(1,2) have "successCount s' = sum_list (map (counted_success mr) (workers s'))"
    by (cases rule: worker_step_cases)
       (use wf i tmp c(1) in \<open>auto simp add: sum_list_map_update_int counted_success_def
            wf_worker_def split: if_splits\<close>)
  moreover
  from assms(1,2) have "errorCount s' = sum_list (map (counted_error mr) (workers s'))"
    by (cases rule: worker_step_cases)
       (use wf i tmp c(2) in \<open>auto simp add: sum_list_map_update_int counted_error_def
            wf_worker_def split: if_splits\<close>)
  moreover
  from assms(1,2) have "mset (durations s') = sum_list (map (appended mr) (workers s'))"
    by (cases rule: worker_step_cases)
       (use wf i tmp c(3) in \<open>auto simp add: sum_list_map_update_mset_same
            sum_list_map_update_mset_new appended_def
            wf_worker_def split: if_splits\<close>)
  ultimately show ?thesis by (simp add: inv_counts_def)
qed

lemma main_step_sem: "inv_sem s \<Longrightarrow> main_step s = Some s' \<Longrightarrow> inv_sem s'"
  by (cases "main_pc s")
     (auto simp: inv_sem_def main_step_def new_worker_def holds_slot_def split: if_splits)

lemma main_step_wg: "inv_wg s \<Longrightarrow> main_step s = Some s' \<Longrightarrow> inv_wg s'"
  by (cases "main_pc s")
     (auto simp: inv_wg_def main_step_def new_worker_def alive_def split: if_splits)

lemma main_step_mu: "inv_mu s \<Longrightarrow> main_step s = Some s' \<Longrightarrow> inv_mu s'"
  by (cases "main_pc s")
     (auto simp: inv_mu_def main_step_def new_worker_def in_cs_def split: if_splits)

lemma main_step_tmp: "inv_tmp s \<Longrightarrow> main_step s = Some s' \<Longrightarrow> inv_tmp s'"
  by (cases "main_pc s")
     (auto simp: inv_tmp_def main_step_def new_worker_def nth_append split: if_splits)

lemma main_step_counts:
  "0 < mr \<Longrightarrow> inv_counts mr s \<Longrightarrow> main_step s = Some s' \<Longrightarrow> inv_counts mr s'"
  by (cases "main_pc s")
     (auto simp: inv_counts_def main_step_def new_worker_def counted_success_def
        counted_error_def appended_def split: if_splits)

lemma wf_new_worker: "wf_worker mr (new_worker f)"
  by (simp add: wf_worker_def new_worker_def hist_failed_def)

lemma main_step_local: "inv_local mr s \<Longrightarrow> main_step s = Some s' \<Longrightarrow> inv_local mr s'"
  by (cases "main_pc s")
     (auto simp: inv_local_def main_step_def wf_new_worker split: if_splits)

lemma inv_imp_safe: "inv mr s \<Longrightarrow> inv_safe s"
  by (simp add: inv_def inv_safe_def inv_struct_def)

lemma step_inv:
  assumes "0 < mr" and "inv mr s" and "step L cfg mr ev s = Some s'"
  shows "inv mr s'"
proof (cases ev)
  case Main
  with assms(3) have m: "main_step s = Some s'" by (simp add: step_def split: if_splits)
  from assms(2) have "inv_struct s" "inv_sem s" "inv_wg s" "inv_mu s" "inv_tmp s"
    "inv_counts mr s" "inv_local mr s"
    by (simp_all add: inv_def)
  then have "inv_struct s'" "inv_sem s'" "inv_wg s'" "inv_mu s'" "inv_tmp s'"
    "inv_counts mr s'" "inv_local mr s'"
    using m assms(1)
    by (blast intro: main_step_struct main_step_sem main_step_wg main_step_mu
          main_step_tmp main_step_counts main_step_local)+
  then show ?thesis by (simp add: inv_def)
next
  case (Work i wld)
  with assms(3) have w: "worker_step L cfg mr i wld s = Some s'"
    by (simp add: step_def split: if_splits)
  note safe = inv_imp_safe [OF assms(2)]
  from assms(2) have "inv_struct s" "inv_tmp s" "inv_counts mr s" "inv_local mr s"
    by (simp_all add: inv_def)
  then have "inv_struct s'" "inv_sem s'" "inv_wg s'" "inv_mu s'" "inv_tmp s'"
    "inv_counts mr s'" "inv_local mr s'"
    using w safe
    by (blast intro: worker_step_struct worker_step_sem worker_step_wg worker_step_mu
          worker_step_tmp worker_step_counts worker_step_local)+
  then show ?thesis by (simp add: inv_def)
qed

lemma inv_init: "inv mr (init_state fs n)"
  by (simp add: inv_def init_state_def inv_struct_def inv_sem_def inv_wg_def inv_mu_def
        inv_tmp_def inv_counts_def inv_local_def)

lemma exec_inv:
  "0 < mr \<Longrightarrow> inv mr s \<Longrightarrow> exec L cfg mr evs s = Some s' \<Longrightarrow> inv mr s'"
proof (induction evs arbitrary: s)
  case Nil
  then show ?case by simp
next
  case (Cons ev evs)
  then show ?case by (auto split: option.splits dest: step_inv)
qed

lemma sum_ind_filter: "sum_list (map (\<lambda>w. ind (P w)) ws) = int (length (filter P ws))"
  by (induction ws) simp_all

lemma mset_concat_map: "mset (concat (map g ws)) = sum_list (map (\<lambda>w. mset (g w)) ws)"
  by (induction ws) simp_all

lemma joined_all_exited:
  assumes "inv_wg s" and "main_pc s = M_joined"
  shows "\<forall>w \<in> set (workers s). gone_pc (pc w)"
proof
  fix w assume "w \<in> set (workers s)"
  then obtain j where j: "j < length (workers s)" "workers s ! j = w"
    by (auto simp: in_set_conv_nth)
  have "alive (workers s ! j) \<le> sum_list (map alive (workers s))"
    by (rule nth_le_sum_list_int) (simp_all add: alive_def j)
  with assms j have "alive w \<le> 0" by (simp add: inv_wg_def)
  then show "gone_pc (pc w)" by (simp add: alive_def ind_def split: if_splits)
qed

lemma returned_error_butlast:
  assumes "attempts w \<noteq> []" and "\<forall>r \<in> set (butlast (attempts w)). returned_error r"
  shows "Inl RuntimePanic \<in> set (attempts w) \<longleftrightarrow> last (attempts w) = Inl RuntimePanic"
    and "(\<forall>r \<in> set (attempts w). isl r) \<longleftrightarrow> isl (last (attempts w))"
proof -
  from assms(1) have sp: "attempts w = butlast (attempts w) @ [last (attempts w)]" by simp
  have a: "set (attempts w) = set (butlast (attempts w)) \<union> {last (attempts w)}"
    by (subst sp) simp
  from assms(2) show
    "Inl RuntimePanic \<in> set (attempts w) \<longleftrightarrow> last (attempts w) = Inl RuntimePanic"
    unfolding a by (auto simp: returned_error_def)
  from assms(2) show "(\<forall>r \<in> set (attempts w). isl r) \<longleftrightarrow> isl (last (attempts w))"
    unfolding a by (auto simp: returned_error_def)
qed

lemma hist_succeeded_job:
  assumes "hist_succeeded w"
  shows "job_succeeded w \<and> \<not> job_failed w \<and> \<not> job_panicked w \<and>
         job_durations w = [wduration w]"
proof -
  from assms have ne: "attempts w \<noteq> []" and l: "last (attempts w) = Inr (wduration w)"
    and bl: "\<forall>r \<in> set (butlast (attempts w)). returned_error r"
    by (simp_all add: hist_succeeded_def)
  from returned_error_butlast [OF ne bl] ne l show ?thesis
    by (simp add: job_succeeded_def job_durations_def job_failed_def job_panicked_def)
qed

lemma hist_failed_job:
  assumes "hist_failed w"
  shows "\<not> job_succeeded w \<and> job_failed w \<and> \<not> job_panicked w \<and> job_durations w = []"
proof -
  from assms have all: "\<forall>r \<in> set (attempts w). returned_error r"
    by (simp add: hist_failed_def)
  then have isl: "\<forall>r \<in> set (attempts w). isl r" and np: "Inl RuntimePanic \<notin> set (attempts w)"
    by (auto simp: returned_error_def)
  show ?thesis
  proof (cases "attempts w = []")
    case True
    then show ?thesis
      by (simp add: job_succeeded_def job_failed_def job_durations_def job_panicked_def)
  next
    case False
    with isl last_in_set [OF False] have "isl (last (attempts w))" by blast
    with isl np False show ?thesis
      by (cases "last (attempts w)")
         (simp_all add: job_succeeded_def job_failed_def job_durations_def job_panicked_def)
  qed
qed

lemma hist_panicked_job:
  assumes "hist_panicked w"
  shows "\<not> job_succeeded w \<and> \<not> job_failed w \<and> job_panicked w \<and> job_durations w = []"
proof -
  from assms have ne: "attempts w \<noteq> []" and l: "last (attempts w) = Inl RuntimePanic"
    and bl: "\<forall>r \<in> set (butlast (attempts w)). returned_error r"
    by (simp_all add: hist_panicked_def)
  from returned_error_butlast [OF ne bl] ne l show ?thesis
    by (simp add: job_succeeded_def job_durations_def job_failed_def job_panicked_def)
qed

lemma exited_worker:
  assumes "wf_worker mr w" and "gone_pc (pc w)" and "0 < mr"
  shows "counted_success mr w = ind (job_succeeded w)"
    and "counted_error mr w = ind (job_failed w)"
    and "appended mr w = mset (job_durations w)"
    and "ind (job_succeeded w) + ind (job_failed w) + ind (job_panicked w) = 1"
    and "length (attempts w) \<le> mr"
    and "job_failed w \<longrightarrow> length (attempts w) = mr"
    and "\<forall>r \<in> set (butlast (attempts w)). returned_error r"
    and "attempts w \<noteq> []"
    and "job_panicked w \<longleftrightarrow> panicking w"
proof -
  from assms(2) have ex: "exit_pc (pc w)" "pc w \<noteq> W_loop" "pc w \<noteq> W_call" "\<not> err_pc (pc w)"
    "\<not> stored_pc (pc w)" "pc w \<noteq> W_err_unlock" "pc w \<noteq> W_ok_unlock"
    by (cases "pc w"; simp)+
  from assms(1) ex consider
      (ok) "hist_succeeded w" "retries w < mr" "\<not> panicking w"
    | (err) "hist_failed w" "retries w = mr" "\<not> panicking w"
    | (pan) "hist_panicked w" "retries w < mr" "panicking w"
    by (auto simp: wf_worker_def)
  then have "counted_success mr w = ind (job_succeeded w) \<and>
    counted_error mr w = ind (job_failed w) \<and>
    appended mr w = mset (job_durations w) \<and>
    ind (job_succeeded w) + ind (job_failed w) + ind (job_panicked w) = 1 \<and>
    length (attempts w) \<le> mr \<and>
    (job_failed w \<longrightarrow> length (attempts w) = mr) \<and>
    (\<forall>r \<in> set (butlast (attempts w)). returned_error r) \<and>
    attempts w \<noteq> [] \<and> (job_panicked w \<longleftrightarrow> panicking w)"
  proof cases
    case ok
    with hist_succeeded_job [OF ok(1)] ex show ?thesis
      by (simp add: counted_success_def counted_error_def appended_def hist_succeeded_def)
  next
    case err
    with hist_failed_job [OF err(1)] ex assms(3) show ?thesis
      by (auto simp add: counted_success_def counted_error_def appended_def hist_failed_def
            dest: in_set_butlastD)
  next
    case pan
    with hist_panicked_job [OF pan(1)] ex show ?thesis
      by (simp add: counted_success_def counted_error_def appended_def hist_panicked_def)
  qed
  then show "counted_success mr w = ind (job_succeeded w)"
    and "counted_error mr w = ind (job_failed w)"
    and "appended mr w = mset (job_durations w)"
    and "ind (job_succeeded w) + ind (job_failed w) + ind (job_panicked w) = 1"
    and "length (attempts w) \<le> mr"
    and "job_failed w \<longrightarrow> length (attempts w) = mr"
    and "\<forall>r \<in> set (butlast (attempts w)). returned_error r"
    and "attempts w \<noteq> []"
    and "job_panicked w \<longleftrightarrow> panicking w"
    by blast+
qed

lemma joined_counts:
  assumes "0 < mr" and "inv mr s" and "main_pc s = M_joined"
  shows "successCount s = int (length (filter job_succeeded (workers s)))"
    and "errorCount s = int (length (filter job_failed (workers s)))"
    and "mset (durations s) = mset (concat (map job_durations (workers s)))"
    and "length (workers s) = length (files s)"
    and "map wfile (workers s) = files s"
    and "\<forall>w \<in> set (workers s). gone_pc (pc w) \<and> wf_worker mr w"
proof -
  from assms(2) have wg: "inv_wg s" and loc: "inv_local mr s" and cnt: "inv_counts mr s"
    and str: "inv_struct s"
    by (simp_all add: inv_def)
  have ex: "\<forall>w \<in> set (workers s). gone_pc (pc w) \<and> wf_worker mr w"
    using joined_all_exited [OF wg assms(3)] loc by (simp add: inv_local_def)
  then show "\<forall>w \<in> set (workers s). gone_pc (pc w) \<and> wf_worker mr w" .
  have "sum_list (map (counted_success mr) (workers s)) =
        sum_list (map (\<lambda>w. ind (job_succeeded w)) (workers s))"
    by (rule arg_cong [where f = sum_list], rule map_cong [OF refl])
       (use ex assms(1) in \<open>simp add: exited_worker(1)\<close>)
  with cnt show "successCount s = int (length (filter job_succeeded (workers s)))"
    by (simp add: inv_counts_def sum_ind_filter)
  have "sum_list (map (counted_error mr) (workers s)) =
        sum_list (map (\<lambda>w. ind (job_failed w)) (workers s))"
    by (rule arg_cong [where f = sum_list], rule map_cong [OF refl])
       (use ex assms(1) in \<open>simp add: exited_worker(2)\<close>)
  with cnt show "errorCount s = int (length (filter job_failed (workers s)))"
    by (simp add: inv_counts_def sum_ind_filter)
  have "sum_list (map (appended mr) (workers s)) =
        sum_list (map (\<lambda>w. mset (job_durations w)) (workers s))"
    by (rule arg_cong [where f = sum_list], rule map_cong [OF refl])
       (use ex assms(1) in \<open>simp add: exited_worker(3)\<close>)
  with cnt show "mset (durations s) = mset (concat (map job_durations (workers s)))"
    by (simp add: inv_counts_def mset_concat_map)
  from str assms(3) show "length (workers s) = length (files s)"
    and "map wfile (workers s) = files s"
    by (simp_all add: inv_struct_def)
qed

section \<open>Facts about the set-up and about finished runs\<close>

lemma main_step_frame: "main_step s = Some s' \<Longrightarrow> files s' = files s \<and> cap s' = cap s"
  by (cases "main_pc s") (auto simp: main_step_def split: if_splits)

lemma worker_step_frame:
  assumes "worker_step L cfg mr i wld s = Some s'"
  shows "files s' = files s \<and> cap s' = cap s"
proof -
  from assms have i: "i < length (workers s)" by (rule worker_step_index)
  with assms show ?thesis
    by (cases "pc (workers s ! i)")
       (auto simp: worker_step_def Let_def split: if_splits sum.splits)
qed

lemma step_frame: "step L cfg mr ev s = Some s' \<Longrightarrow> files s' = files s \<and> cap s' = cap s"
  by (cases ev) (auto simp: step_def dest: main_step_frame worker_step_frame split: if_splits)

lemma exec_frame: "exec L cfg mr evs s = Some s' \<Longrightarrow> files s' = files s \<and> cap s' = cap s"
proof (induction evs arbitrary: s)
  case Nil
  then show ?case by simp
next
  case (Cons ev evs)
  then show ?case by (auto split: option.splits dest: step_frame)
qed

lemma run_after_config_result:
  assumes "run_after_config L E c = Inr (cfg, s0)"
  shows "cfg = c \<and> 0 \<le> parallelism cfg \<and> \<not> (maxWidth cfg = 0 \<and> maxHeight cfg = 0) \<and>
    MkdirAll E (outputPath cfg) = None \<and>
    (\<exists>fs. collect_files [] (WalkEntries E (inputPath cfg)) = Inr fs \<and>
          s0 = init_state fs (nat (parallelism cfg)))"
  using assms
  by (auto simp: run_after_config_def split: if_splits option.splits sum.splits)

lemma run_setup_result:
  assumes "run_setup L E flags = Inr (cfg, s0)"
  shows "0 \<le> parallelism cfg \<and> parallelism cfg = parallelism flags \<and>
    \<not> (maxWidth cfg = 0 \<and> maxHeight cfg = 0) \<and>
    (\<exists>fs. collect_files [] (WalkEntries E (inputPath cfg)) = Inr fs \<and>
          s0 = init_state fs (nat (parallelism cfg)))"
proof (cases "configFile flags = []")
  case True
  with assms have "run_after_config L E flags = Inr (cfg, s0)" by (simp add: run_setup_def)
  from run_after_config_result [OF this] show ?thesis by auto
next
  case False
  with assms obtain c where c: "readConfig L E (configFile flags) flags = Inr c"
    and r: "run_after_config L E c = Inr (cfg, s0)"
    by (auto simp: run_setup_def split: sum.splits)
  from c have "parallelism c = parallelism flags"
    by (auto simp: readConfig_def Let_def split: sum.splits option.splits)
  with run_after_config_result [OF r] show ?thesis by auto
qed

lemma in_call_bound:
  assumes "inv_sem s"
  shows "int (length (filter (\<lambda>w. pc w = W_call) (workers s))) \<le> int (cap s)"
proof -
  have "sum_list (map in_call (workers s)) \<le> sum_list (map holds_slot (workers s))"
    by (rule sum_list_mono) (simp add: in_call_def holds_slot_def ind_def)
  moreover have "0 \<le> ind (main_pc s = M_go)" by simp
  moreover from assms have
    "int (sem s) = sum_list (map holds_slot (workers s)) + ind (main_pc s = M_go)"
    and "sem s \<le> cap s"
    by (simp_all add: inv_sem_def)
  moreover have "sum_list (map in_call (workers s)) =
      int (length (filter (\<lambda>w. pc w = W_call) (workers s)))"
    unfolding in_call_def by (rule sum_ind_filter)
  ultimately show ?thesis by linarith
qed

lemma maxRetries_pos: "0 < maxRetries"
  by (simp add: maxRetries_def)

lemma success_elapsed: "snd (processImage L cfg w f) = Inr d \<Longrightarrow> d = elapsed w"
  by (auto simp: processImage_def write_output_def Let_def save_and_finish_def
           split: option.splits sum.splits if_splits)

lemma setup_exec_inv:
  assumes "run_setup L E flags = Inr (cfg, s0)" and "exec L cfg maxRetries evs s0 = Some s"
  shows "inv maxRetries s \<and> files s = files s0 \<and> int (cap s) = parallelism cfg"
proof -
  from run_setup_result [OF assms(1)] obtain fs where
    s0: "s0 = init_state fs (nat (parallelism cfg))" and p: "0 \<le> parallelism cfg" by blast
  have "inv maxRetries s"
    using exec_inv [OF maxRetries_pos _ assms(2)] by (simp add: s0 inv_init)
  with exec_frame [OF assms(2)] p show ?thesis by (simp add: s0 init_state_def)
qed

section \<open>Runs that never succeed and runs without a slot\<close>










lemma step_no_slot:
  assumes "inv_no_slot s" and "step L cfg mr ev s = Some s'"
  shows "inv_no_slot s'"
proof (cases ev)
  case Main
  with assms show ?thesis
    by (cases "main_pc s") (auto simp: step_def main_step_def inv_no_slot_def split: if_splits)
next
  case (Work i wld)
  with assms show ?thesis
    by (simp add: step_def worker_step_def inv_no_slot_def split: if_splits)
qed

lemma exec_no_slot:
  "inv_no_slot s \<Longrightarrow> exec L cfg mr evs s = Some s' \<Longrightarrow> inv_no_slot s'"
proof (induction evs arbitrary: s)
  case Nil
  then show ?case by simp
next
  case (Cons ev evs)
  then show ?case by (auto split: option.splits dest: step_no_slot)
qed

lemma no_slot_init: "inv_no_slot (init_state fs 0)"
  by (simp add: inv_no_slot_def init_state_def)

section \<open>Every run ends, and none gets stuck with a slot to give\<close>

lemma sum_list_map_update_nat:
  fixes f :: "'a \<Rightarrow> nat"
  shows "i < length xs \<Longrightarrow> sum_list (map f (xs[i := y])) + f (xs ! i) = sum_list (map f xs) + f y"
  by (induction xs arbitrary: i) (auto split: nat.splits)

lemma main_step_decreases:
  assumes "inv_struct s" and "main_step s = Some s'"
  shows "steps_left mr s' < steps_left mr s"
proof (cases "main_pc s")
  case M_go
  with assms(1) have "idx s < length (files s)" by (simp add: inv_struct_def)
  then obtain u where u: "length (files s) - idx s = Suc u" "length (files s) - Suc (idx s) = u"
    by (metis Suc_diff_Suc)
  from assms(2) M_go have "s' = s\<lparr>workers := workers s @ [new_worker (file_var s)],
      idx := idx s + 1, main_pc := M_loop\<rparr>"
    by (simp add: main_step_def)
  with M_go u show ?thesis
    by (simp add: steps_left_def worker_rank_def new_worker_def)
qed (use assms in \<open>auto simp: main_step_def steps_left_def split: if_splits\<close>)

lemma worker_step_decreases:
  assumes "inv_safe s" and "inv_local mr s" and "worker_step L cfg mr i wld s = Some s'"
  shows "steps_left mr s' < steps_left mr s"
proof -
  from assms(3) have i: "i < length (workers s)" by (rule worker_step_index)
  with assms(2) have wf: "wf_worker mr (workers s ! i)" by (simp add: inv_local_def)
  note u = sum_list_map_update_nat [of i "workers s" "worker_rank mr", OF i]
  from assms(3,1) have
    "worker_rank mr (workers s' ! i) < worker_rank mr (workers s ! i) \<and>
     workers s' = (workers s)[i := workers s' ! i] \<and>
     files s' = files s \<and> idx s' = idx s \<and> main_pc s' = main_pc s"
    by (cases rule: worker_step_cases)
       (use wf i in \<open>auto simp: worker_rank_def wf_worker_def\<close>)
  with u [of "workers s' ! i"] show ?thesis
    by (simp add: steps_left_def)
qed

lemma step_decreases:
  assumes "0 < mr" and "inv mr s" and "step L cfg mr ev s = Some s'"
  shows "steps_left mr s' < steps_left mr s"
proof (cases ev)
  case Main
  with assms(3) have "main_step s = Some s'" by (simp add: step_def split: if_splits)
  with assms(2) show ?thesis by (intro main_step_decreases) (simp_all add: inv_def)
next
  case (Work i wld)
  with assms(3) have "worker_step L cfg mr i wld s = Some s'"
    by (simp add: step_def split: if_splits)
  with assms(2) inv_imp_safe [OF assms(2)] show ?thesis
    by (intro worker_step_decreases) (simp_all add: inv_def)
qed

lemma exec_bounded:
  "0 < mr \<Longrightarrow> inv mr s \<Longrightarrow> exec L cfg mr evs s = Some s' \<Longrightarrow>
   length evs + steps_left mr s' \<le> steps_left mr s"
proof (induction evs arbitrary: s)
  case Nil
  then show ?case by simp
next
  case (Cons ev evs)
  from Cons.prems(3) obtain t where t: "step L cfg mr ev s = Some t"
    and e: "exec L cfg mr evs t = Some s'"
    by (auto split: option.splits)
  from step_inv [OF Cons.prems(1,2) t] have "inv mr t" .
  from Cons.IH [OF Cons.prems(1) this e] step_decreases [OF Cons.prems(1,2) t]
  show ?case by simp
qed

lemma pos_sum_list_ex:
  fixes f :: "'a \<Rightarrow> int"
  assumes "0 < sum_list (map f xs)"
  shows "\<exists>i < length xs. 0 < f (xs ! i)"
proof (rule ccontr)
  assume "\<not> (\<exists>i < length xs. 0 < f (xs ! i))"
  then have "\<forall>x \<in> set xs. f x \<le> 0" by (metis in_set_conv_nth not_less)
  then have "sum_list (map f xs) \<le> 0" by (intro sum_list_nonpos) auto
  with assms show False by simp
qed

lemma worker_step_enabled:
  assumes "inv_safe s" and "i < length (workers s)" and "pc (workers s ! i) \<noteq> W_exited"
    and "mu s \<longrightarrow> pc (workers s ! i) \<noteq> W_err_lock \<and> pc (workers s ! i) \<noteq> W_ok_lock"
  shows "\<exists>s'. worker_step L cfg mr i wld s = Some s'"
proof (cases "pc (workers s ! i)")
  case W_release
  have a: "holds_slot (workers s ! i) \<le> sum_list (map holds_slot (workers s))"
    by (rule nth_le_sum_list_int) (simp_all add: holds_slot_def assms(2))
  have b: "0 \<le> ind (main_pc s = M_go)" by simp
  from assms(1) have c:
    "int (sem s) = sum_list (map holds_slot (workers s)) + ind (main_pc s = M_go)"
    by (simp add: inv_safe_def inv_sem_def)
  from W_release have h: "holds_slot (workers s ! i) = 1" by (simp add: holds_slot_def)
  from a b c h have "0 < int (sem s)" by linarith
  then have "0 < sem s" by simp
  with W_release assms(2) show ?thesis by (simp add: worker_step_def)
next
  case W_call
  with assms(2) show ?thesis
    by (cases "snd (processImage L cfg wld (wfile (workers s ! i)))")
       (simp_all add: worker_step_def Let_def)
qed (use assms in \<open>simp_all add: worker_step_def Let_def\<close>)

lemma some_worker_enabled:
  assumes "inv_safe s" and "i < length (workers s)" and "pc (workers s ! i) \<noteq> W_exited"
  shows "\<exists>j s'. worker_step L cfg mr j wld s = Some s'"
proof (cases "mu s")
  case False
  with worker_step_enabled [OF assms, of L cfg mr wld] show ?thesis by blast
next
  case True
  with assms(1) have "0 < sum_list (map in_cs (workers s))"
    by (simp add: inv_safe_def inv_mu_def)
  from pos_sum_list_ex [OF this] obtain j where j: "j < length (workers s)"
    "cs_pc (pc (workers s ! j))"
    by (auto simp: in_cs_def ind_def split: if_splits)
  from j(2) have "pc (workers s ! j) \<noteq> W_exited" "pc (workers s ! j) \<noteq> W_err_lock"
    "pc (workers s ! j) \<noteq> W_ok_lock"
    by auto
  with worker_step_enabled [OF assms(1) j(1), of L cfg mr wld] show ?thesis by blast
qed

lemma progress:
  assumes "inv_safe s" and "0 < cap s" and "main_pc s \<noteq> M_joined" and np: "\<not> dead s"
  shows "\<exists>(ev :: 'img event) s'. step L cfg mr ev s = Some s'"
proof -
  have w: "\<exists>(ev :: 'img event) s'. step L cfg mr ev s = Some s'"
    if "i < length (workers s)" "pc (workers s ! i) \<noteq> W_exited" for i
  proof -
    from some_worker_enabled [OF assms(1) that, of L cfg mr "undefined :: 'img world"]
    obtain j s' where "worker_step L cfg mr j (undefined :: 'img world) s = Some s'" by blast
    with np have "step L cfg mr (Work j (undefined :: 'img world)) s = Some s'"
      by (simp add: step_def)
    then show ?thesis by blast
  qed
  have m: "\<exists>(ev :: 'img event) s'. step L cfg mr ev s = Some s'" if "main_step s \<noteq> None"
  proof -
    from that obtain t where "main_step s = Some t" by blast
    with np have "step L cfg mr (Main :: 'img event) s = Some t" by (simp add: step_def)
    then show ?thesis by blast
  qed
  show ?thesis
  proof (cases "main_pc s")
    case M_loop
    then show ?thesis by (intro m) (simp add: main_step_def)
  next
    case M_go
    then show ?thesis by (intro m) (simp add: main_step_def)
  next
    case M_send
    show ?thesis
    proof (cases "sem s < cap s")
      case True
      with M_send show ?thesis by (intro m) (simp add: main_step_def)
    next
      case False
      with assms(2) have p: "0 < int (sem s)" by simp
      from assms(1) M_send have
        "int (sem s) = sum_list (map holds_slot (workers s))"
        by (simp add: inv_safe_def inv_sem_def)
      with p have "0 < sum_list (map holds_slot (workers s))" by linarith
      from pos_sum_list_ex [OF this] obtain i where "i < length (workers s)"
        "slot_pc (pc (workers s ! i))"
        by (auto simp: holds_slot_def ind_def split: if_splits)
      then show ?thesis by (intro w [of i]) auto
    qed
  next
    case M_wait
    show ?thesis
    proof (cases "wg s = 0")
      case True
      with M_wait show ?thesis by (intro m) (simp add: main_step_def)
    next
      case False
      have n: "0 \<le> sum_list (map alive (workers s))"
        by (intro sum_list_nonneg) (auto simp: alive_def)
      from assms(1) M_wait have "wg s = sum_list (map alive (workers s))"
        by (simp add: inv_safe_def inv_wg_def)
      with n False have "0 < sum_list (map alive (workers s))" by linarith
      from pos_sum_list_ex [OF this] obtain i where "i < length (workers s)"
        "\<not> gone_pc (pc (workers s ! i))"
        by (auto simp: alive_def ind_def split: if_splits)
      then show ?thesis by (intro w [of i]) auto
    qed
  next
    case M_joined
    with assms(3) show ?thesis by simp
  qed
qed

section \<open>File names and encoder options\<close>

lemma HasSuffix_split: "HasSuffix s suf \<Longrightarrow> s = TrimSuffix s suf @ suf"
  by (simp add: HasSuffix_def TrimSuffix_def) (metis append_take_drop_id)

lemma TrimSuffix_append: "TrimSuffix (q @ e) e = q"
  by (simp add: TrimSuffix_def HasSuffix_def)

lemma takeWhile_no_sep:
  assumes "\<forall>c \<in> set x. \<not> isSep c"
  shows "takeWhile (\<lambda>c. \<not> isSep c) (rev x @ CHR ''.'' # r) =
    rev x @ CHR ''.'' # takeWhile (\<lambda>c. \<not> isSep c) r"
proof -
  have "takeWhile (\<lambda>c. \<not> isSep c) (rev x @ CHR ''.'' # r) =
      rev x @ takeWhile (\<lambda>c. \<not> isSep c) (CHR ''.'' # r)"
    using assms by (intro takeWhile_append2) auto
  then show ?thesis by (simp add: isSep_def)
qed

lemma dropWhile_no_sep:
  assumes "\<forall>c \<in> set x. \<not> isSep c"
  shows "dropWhile isSep (rev x @ CHR ''.'' # r) = rev x @ CHR ''.'' # r"
  using assms by (cases "rev x") (auto simp: isSep_def)

lemma Base_with_ext:
  assumes "\<forall>c \<in> set x. \<not> isSep c"
  shows "Base (p @ CHR ''.'' # x) = rev (takeWhile (\<lambda>c. \<not> isSep c) (rev p)) @ CHR ''.'' # x"
  by (simp add: Base_def Let_def dropWhile_no_sep [OF assms] takeWhile_no_sep [OF assms])

lemma Ext_with_ext:
  assumes "\<forall>c \<in> set x. c \<noteq> CHR ''.'' \<and> \<not> isSep c"
  shows "Ext (p @ CHR ''.'' # x) = CHR ''.'' # x"
proof -
  from assms have s: "\<forall>c \<in> set x. \<not> isSep c" by blast
  have u: "takeWhile (\<lambda>c. c \<noteq> CHR ''.'') (rev x @ CHR ''.'' # z) = rev x" for z
  proof -
    have "takeWhile (\<lambda>c. c \<noteq> CHR ''.'') (rev x @ CHR ''.'' # z) =
        rev x @ takeWhile (\<lambda>c. c \<noteq> CHR ''.'') (CHR ''.'' # z)"
      using assms by (intro takeWhile_append2) auto
    then show ?thesis by simp
  qed
  show ?thesis
    by (simp add: Ext_def Let_def takeWhile_no_sep [OF s] u)
qed

lemma stem_with_ext:
  assumes "\<forall>c \<in> set x. c \<noteq> CHR ''.'' \<and> \<not> isSep c"
  shows "TrimSuffix (Base (p @ CHR ''.'' # x)) (Ext (p @ CHR ''.'' # x)) =
    rev (takeWhile (\<lambda>c. \<not> isSep c) (rev p))"
  using assms by (simp add: Base_with_ext Ext_with_ext TrimSuffix_append)

lemma stem_cr3:
  assumes "HasSuffix f ''.cr3''"
  shows "TrimSuffix (Base (TrimSuffix f ''.cr3'' @ ''.jpg'')) (Ext (TrimSuffix f ''.cr3'' @ ''.jpg''))
    = TrimSuffix (Base f) (Ext f)"
proof -
  let ?p = "TrimSuffix f ''.cr3''"
  have f: "f = ?p @ CHR ''.'' # ''cr3''" using HasSuffix_split [OF assms] by simp
  have "TrimSuffix (Base (?p @ CHR ''.'' # ''cr3'')) (Ext (?p @ CHR ''.'' # ''cr3'')) =
      rev (takeWhile (\<lambda>c. \<not> isSep c) (rev ?p))"
    by (rule stem_with_ext) (simp add: isSep_def)
  moreover have "TrimSuffix (Base (?p @ CHR ''.'' # ''jpg'')) (Ext (?p @ CHR ''.'' # ''jpg'')) =
      rev (takeWhile (\<lambda>c. \<not> isSep c) (rev ?p))"
    by (rule stem_with_ext) (simp add: isSep_def)
  ultimately show ?thesis using f by simp
qed

lemma Base_no_sep:
  assumes "\<exists>c \<in> set f. \<not> isSep c"
  shows "\<forall>c \<in> set (Base f). \<not> isSep c"
proof -
  define d where "d = dropWhile isSep (rev f)"
  define e where "e = takeWhile (\<lambda>c. \<not> isSep c) d"
  from assms have ne: "f \<noteq> []" by auto
  from assms have dn: "dropWhile isSep (rev f) \<noteq> []" by (auto simp: dropWhile_eq_Nil_conv)
  then obtain a as where da: "d = a # as" unfolding d_def by (cases "dropWhile isSep (rev f)") auto
  from hd_dropWhile [OF dn] have "\<not> isSep (hd d)" unfolding d_def .
  with da have "\<not> isSep a" by simp
  with da have t: "e \<noteq> []" by (simp add: e_def)
  have s: "\<forall>c \<in> set e. \<not> isSep c"
    by (auto simp: e_def dest: set_takeWhileD)
  from ne have "Base f = (if rev e = [] then ''/'' else rev e)"
    unfolding Base_def Let_def e_def d_def by (simp only: rev_rev_ident if_False)
  with t s show ?thesis by simp
qed

lemma TrimSuffix_subset: "set (TrimSuffix b e) \<subseteq> set b"
  by (auto simp: TrimSuffix_def dest: in_set_takeD)

lemma write_output_success:
  assumes "snd (write_output L cfg w tr img file) = Inr d"
  shows "\<exists>opts. fst (write_output L cfg w tr img file) =
      tr @ [SaveImage img (Join L (outputPath cfg)
         (TrimSuffix (Base file) (Ext file) @ ''.'' @ outputFormat cfg)) opts] \<and>
    imaging_Save w img (Join L (outputPath cfg)
         (TrimSuffix (Base file) (Ext file) @ ''.'' @ outputFormat cfg)) opts = None \<and>
    supported (outputFormat cfg)"
  using assms
  by (auto simp: write_output_def Let_def save_and_finish_def supported_def
           split: option.splits if_splits)

lemma processImage_success:
  assumes "snd (processImage L cfg w f) = Inr d"
  shows "\<exists>img opts. filter is_save (fst (processImage L cfg w f)) =
      [SaveImage img (Join L (outputPath cfg)
         (TrimSuffix (Base f) (Ext f) @ ''.'' @ outputFormat cfg)) opts] \<and>
    imaging_Save w img (Join L (outputPath cfg)
         (TrimSuffix (Base f) (Ext f) @ ''.'' @ outputFormat cfg)) opts = None \<and>
    supported (outputFormat cfg)"
proof -
  define fl where "fl = (if HasSuffix f ''.cr3'' then TrimSuffix f ''.cr3'' @ ''.jpg'' else f)"
  define tr :: "'a effect list" where "tr = (if HasSuffix f ''.cr3'' then [RunExiftool f] else [])"
  have st: "TrimSuffix (Base fl) (Ext fl) = TrimSuffix (Base f) (Ext f)"
    by (simp add: fl_def stem_cr3)
  have tr: "filter is_save tr = []" by (simp add: tr_def)
  from assms obtain img where p: "processImage L cfg w f = write_output L cfg w tr img fl"
    by (auto simp: processImage_def Let_def fl_def tr_def
             split: option.splits sum.splits if_splits)
  with assms have "snd (write_output L cfg w tr img fl) = Inr d" by simp
  from write_output_success [OF this] obtain opts where
    "fst (write_output L cfg w tr img fl) =
      tr @ [SaveImage img (Join L (outputPath cfg)
         (TrimSuffix (Base fl) (Ext fl) @ ''.'' @ outputFormat cfg)) opts]"
    "imaging_Save w img (Join L (outputPath cfg)
         (TrimSuffix (Base fl) (Ext fl) @ ''.'' @ outputFormat cfg)) opts = None"
    "supported (outputFormat cfg)"
    by blast
  with p tr st show ?thesis by simp
qed

lemma supported_no_sep: "supported fmt \<Longrightarrow> \<forall>c \<in> set fmt. \<not> isSep c"
  by (auto simp: supported_def isSep_def)

lemma write_output_effects:
  assumes "e \<in> set (fst (write_output L cfg w tr img fl))"
  shows "e \<in> set tr \<or>
    (\<exists>path. e = SaveImage img path
       (if outputFormat cfg = ''jpeg'' then [JPEGQuality (compression cfg)] else []))"
  using assms
  by (auto simp: write_output_def Let_def save_and_finish_def split: option.splits if_splits)

lemma processImage_effects:
  assumes "SaveImage img path opts \<in> set (fst (processImage L cfg w f))"
  shows "opts = (if outputFormat cfg = ''jpeg'' then [JPEGQuality (compression cfg)] else [])"
proof -
  define fl where "fl = (if HasSuffix f ''.cr3'' then TrimSuffix f ''.cr3'' @ ''.jpg'' else f)"
  define tr :: "'a effect list" where "tr = (if HasSuffix f ''.cr3'' then [RunExiftool f] else [])"
  have tr: "SaveImage img path opts \<notin> set tr" by (simp add: tr_def)
  have "fst (processImage L cfg w f) = tr \<or>
      (\<exists>im. processImage L cfg w f = write_output L cfg w tr im fl)"
    by (auto simp: processImage_def Let_def fl_def tr_def split: option.splits sum.splits)
  with assms tr obtain im where "SaveImage img path opts \<in> set (fst (write_output L cfg w tr im fl))"
    by auto
  from write_output_effects [OF this] tr show ?thesis by auto
qed

lemma write_output_compression:
  "outputFormat cfg \<noteq> ''jpeg'' \<Longrightarrow>
   write_output L (cfg\<lparr>compression := c\<rparr>) w tr img fl = write_output L cfg w tr img fl"
  by (simp add: write_output_def Let_def cong: if_cong)

lemma resized_compression: "resized (cfg\<lparr>compression := c\<rparr>) w img = resized cfg w img"
  by (simp add: resized_def)

lemma processImage_compression:
  "outputFormat cfg \<noteq> ''jpeg'' \<Longrightarrow>
   processImage L (cfg\<lparr>compression := c\<rparr>) w f = processImage L cfg w f"
  by (auto simp: processImage_def Let_def write_output_compression resized_compression
           split: option.splits sum.splits)

section \<open>The text of the report\<close>

lemma report_loop_enumerate:
  "report_loop L r i ds =
     r @ concat (map (\<lambda>(j, x). ''Image '' @ fmt_d (int j) @ '' processing time: '' @
                          DurationString L x @ nl) (enumerate (Suc i) ds))"
  by (induction ds arbitrary: r i) (simp_all add: add.commute)

lemma report_text:
  "report_loop L (report_header L n sc ec d) 0 ds =
     concat (map (\<lambda>l. l @ nl) (report_lines_spec L n sc ec d ds))"
  by (simp add: report_loop_enumerate report_header_def report_lines_spec_def
        map_concat comp_def split_def)

lemma int_sum_list_map: "int (sum_list (map f ws)) = sum_list (map (\<lambda>w. int (f w)) ws)"
  by (induction ws) simp_all

lemma joined_durations_length:
  assumes "0 < mr" and "inv mr s" and "main_pc s = M_joined"
  shows "int (length (durations s)) = successCount s"
proof -
  note jc = joined_counts [OF assms]
  have p: "int (length (job_durations w)) = ind (job_succeeded w)" if "w \<in> set (workers s)" for w
  proof -
    from jc(6) that have wg: "wf_worker mr w" "gone_pc (pc w)" by simp_all
    define c where "c \<longleftrightarrow> exit_pc (pc w) \<and> retries w < mr \<and> \<not> panicking w"
    from exited_worker(1,3) [OF wg assms(1)]
    have e: "mset (job_durations w) = appended mr w"
      "ind (job_succeeded w) = counted_success mr w"
      by simp_all
    from \<open>gone_pc (pc w)\<close> have "\<not> stored_pc (pc w)" "pc w \<noteq> W_ok_unlock"
      by (cases "pc w"; simp)+
    then have a: "appended mr w = (if c then {#wduration w#} else {#})"
      and b: "counted_success mr w = ind c"
      by (simp_all add: appended_def counted_success_def c_def)
    from e(1) a have "size (mset (job_durations w)) = (if c then 1 else 0)" by simp
    with e(2) b show ?thesis by (simp add: ind_def)
  qed
  from jc(3) have "size (mset (durations s)) = size (mset (concat (map job_durations (workers s))))"
    by simp
  then have "length (durations s) = sum_list (map (\<lambda>w. length (job_durations w)) (workers s))"
    by (simp add: length_concat comp_def)
  then have "int (length (durations s)) =
      sum_list (map (\<lambda>w. int (length (job_durations w))) (workers s))"
    by (simp add: int_sum_list_map)
  also have "\<dots> = sum_list (map (\<lambda>w. ind (job_succeeded w)) (workers s))"
    by (rule arg_cong [where f = sum_list], rule map_cong [OF refl]) (simp add: p)
  also have "\<dots> = successCount s"
    using jc(1) by (simp add: sum_ind_filter)
  finally show ?thesis .
qed

lemma run_Completed:
  assumes "run L E flags evs t = Completed path text"
  obtains cfg s0 s where "run_setup L E flags = Inr (cfg, s0)"
    and "exec L cfg maxRetries evs s0 = Some s" and "main_pc s = M_joined" and "\<not> dead s"
    and "generateSummaryReport L E cfg (int (length (files s))) (successCount s) (errorCount s)
           t (durations s) = Inr (path, text)"
  using assms
  by (auto simp: run_def split: sum.splits option.splits if_splits prod.splits)

lemma three_way_count:
  assumes "\<forall>w \<in> set ws. ind (A w) + ind (B w) + ind (C w) = 1"
  shows "int (length (filter A ws)) + int (length (filter B ws)) + int (length (filter C ws)) =
    int (length ws)"
  using assms by (induction ws) (auto simp: ind_def split: if_splits)


lemma no_files_run:
  assumes "run_setup L E flags = Inr (cfg, s0)" and "files s0 = []"
  shows "run L E flags ([Main, Main] :: 'img event list) t =
    (case WriteFile E (Join L (outputPath cfg) ''summary_report.txt'') (report_header L 0 0 0 t) of
       Some err \<Rightarrow> Aborted (Fatal ''Error writing summary report: '' err)
     | None \<Rightarrow> Completed (Join L (outputPath cfg) ''summary_report.txt'')
                 (report_header L 0 0 0 t))"
proof -
  from run_setup_result [OF assms(1)] assms(2) have s0: "s0 = init_state [] (nat (parallelism cfg))"
    by (auto simp: init_state_def)
  show ?thesis
    by (simp add: run_def assms(1) s0 init_state_def step_def main_step_def
          generateSummaryReport_def Let_def split: option.splits)
qed

section \<open>Reading the configuration file\<close>

text \<open>
  Claim C10. When a configuration file is given and can be read and decoded, each of the
  keys \<^verbatim>\<open>input\<close>, \<^verbatim>\<open>output\<close>, \<^verbatim>\<open>compression\<close>, \<^verbatim>\<open>width\<close>, \<^verbatim>\<open>height\<close> and \<^verbatim>\<open>format\<close> that is present
  with the expected JSON type replaces the value of the corresponding flag (a number
  after conversion to \<^verbatim>\<open>int\<close>), every other flag value is kept, among them those of keys
  that are absent, and the checks of \<^verbatim>\<open>run\<close> see the values after the replacement.
\<close>

theorem readConfig_overwrites:
  assumes "configFile cfg \<noteq> []"
    and "ReadFile E (configFile cfg) = Inr data" and "Unmarshal L data = Inr conf"
  shows "\<exists>cfg'. readConfig L E (configFile cfg) cfg = Inr cfg' \<and>
     inputPath cfg' = (case as_string (conf ''input'') of Some v \<Rightarrow> v | None \<Rightarrow> inputPath cfg) \<and>
     outputPath cfg' = (case as_string (conf ''output'') of Some v \<Rightarrow> v | None \<Rightarrow> outputPath cfg) \<and>
     compression cfg' = (case as_float64 (conf ''compression'') of
                           Some v \<Rightarrow> int_of_float64 L v | None \<Rightarrow> compression cfg) \<and>
     maxWidth cfg' = (case as_float64 (conf ''width'') of
                        Some v \<Rightarrow> int_of_float64 L v | None \<Rightarrow> maxWidth cfg) \<and>
     maxHeight cfg' = (case as_float64 (conf ''height'') of
                         Some v \<Rightarrow> int_of_float64 L v | None \<Rightarrow> maxHeight cfg) \<and>
     outputFormat cfg' = (case as_string (conf ''format'') of Some v \<Rightarrow> v | None \<Rightarrow> outputFormat cfg) \<and>
     configFile cfg' = configFile cfg \<and> parallelism cfg' = parallelism cfg \<and>
     run_setup L E cfg = run_after_config L E cfg'"
  using assms
  by (simp add: readConfig_def run_setup_def Let_def split: option.splits)

theorem readConfig_overwrites_witness:
  "\<exists>cfg'. readConfig golib0 env0 ''conf.json'' (flags0\<lparr>configFile := ''conf.json''\<rparr>) = Inr cfg' \<and>
     inputPath cfg' = ''in'' \<and> outputPath cfg' = ''out'' \<and> compression cfg' = 75 \<and>
     maxWidth cfg' = 200 \<and> maxHeight cfg' = 0 \<and> outputFormat cfg' = ''png'' \<and>
     configFile cfg' = ''conf.json'' \<and> parallelism cfg' = 2 \<and>
     run_setup golib0 env0 (flags0\<lparr>configFile := ''conf.json''\<rparr>) = run_after_config golib0 env0 cfg'"
  using readConfig_overwrites [of "flags0\<lparr>configFile := ''conf.json''\<rparr>" env0 "''{}''" golib0
      "map_of [(''width'', JNumber 200), (''format'', JString ''png''), (''input'', JBool True)]"]
  by (simp add: golib0_def env0_def flags0_def default_flags_def int_of_float64_def)

section \<open>The counters after the run\<close>

text \<open>
  Claim C1, as the code has it. The claim as stated fails. One file, a concurrency limit
  of 2 and a height of \<open>-1\<close>, which the set-up lets through: the one call of
  \<^verbatim>\<open>processImage\<close> panics in the resize, the two deferred calls of the worker run, the wait
  returns, and the report is written with one job and both counters at 0.
\<close>

theorem panicking_job_in_neither_counter:
  "1 \<le> parallelism (flags0\<lparr>maxHeight := - 1\<rparr>) \<and>
   run_setup golib0 env_one (flags0\<lparr>maxHeight := - 1\<rparr>) =
     Inr (flags0\<lparr>maxHeight := - 1\<rparr>, init_state [''in/a.png''] 2) \<and>
   exec golib0 (flags0\<lparr>maxHeight := - 1\<rparr>) maxRetries sched_panic
     (init_state [''in/a.png''] 2) \<noteq> None \<and>
   main_pc (the (exec golib0 (flags0\<lparr>maxHeight := - 1\<rparr>) maxRetries sched_panic
     (init_state [''in/a.png''] 2))) = M_joined \<and>
   successCount (the (exec golib0 (flags0\<lparr>maxHeight := - 1\<rparr>) maxRetries sched_panic
     (init_state [''in/a.png''] 2))) +
   errorCount (the (exec golib0 (flags0\<lparr>maxHeight := - 1\<rparr>) maxRetries sched_panic
     (init_state [''in/a.png''] 2))) \<noteq> int (length [''in/a.png'']) \<and>
   run golib0 env_one (flags0\<lparr>maxHeight := - 1\<rparr>) sched_panic 9 =
     Completed ''out/summary_report.txt''
       (''Summary Report:'' @ nl @ ''Total images processed: 1'' @ nl @
        ''Successfully processed: 0'' @ nl @ ''Errors encountered: 0'' @ nl @
        ''Total time taken: 9ns'' @ nl)"
  by code_simp

text \<open>
  Claim C1, amended. Whenever the run has passed the wait for all workers, one worker was
  started for every file, the counters hold the number of jobs that ended with a success
  and the number of jobs all of whose calls returned an error, and together with the
  number of jobs whose call panicked they add up to the number of enumerated files. So in
  every run in which no call of \<^verbatim>\<open>processImage\<close> panics the two counters add up to the number
  of files, and every job has added one to exactly one of them. This holds for every
  concurrency limit for which the set-up succeeds, in particular for every limit of at
  least 1.
\<close>

theorem counts_add_up:
  assumes "run_setup L E flags = Inr (cfg, s0)"
    and "exec L cfg maxRetries evs s0 = Some s"
    and "main_pc s = M_joined"
  shows "length (workers s) = length (files s0) \<and>
    successCount s = int (length (filter job_succeeded (workers s))) \<and>
    errorCount s = int (length (filter job_failed (workers s))) \<and>
    successCount s + errorCount s + int (length (filter job_panicked (workers s))) =
      int (length (files s0)) \<and>
    ((\<forall>w \<in> set (workers s). \<not> job_panicked w) \<longrightarrow>
       successCount s + errorCount s = int (length (files s0)) \<and>
       (\<forall>w \<in> set (workers s). job_succeeded w \<noteq> job_failed w))"
proof -
  from run_setup_result [OF assms(1)] obtain fs where
    s0: "s0 = init_state fs (nat (parallelism cfg))" by blast
  have inv: "inv maxRetries s"
    using exec_inv [OF maxRetries_pos _ assms(2)] by (simp add: s0 inv_init)
  note j = joined_counts [OF maxRetries_pos inv assms(3)]
  from exec_frame [OF assms(2)] have f: "files s = files s0" by simp
  have one: "\<forall>w \<in> set (workers s).
      ind (job_succeeded w) + ind (job_failed w) + ind (job_panicked w) = 1"
    using j(6) exited_worker(4) [OF _ _ maxRetries_pos] by blast
  from three_way_count [OF one] j(1,2,4) f
  have t: "successCount s + errorCount s + int (length (filter job_panicked (workers s))) =
      int (length (files s0))"
    by simp
  have n: "successCount s + errorCount s = int (length (files s0)) \<and>
       (\<forall>w \<in> set (workers s). job_succeeded w \<noteq> job_failed w)"
    if np: "\<forall>w \<in> set (workers s). \<not> job_panicked w"
  proof -
    from np have "filter job_panicked (workers s) = []" by (simp add: filter_empty_conv)
    with t have a: "successCount s + errorCount s = int (length (files s0))" by simp
    have "job_succeeded w \<noteq> job_failed w" if "w \<in> set (workers s)" for w
      using one [rule_format, OF that] np [rule_format, OF that]
      by (auto simp: ind_def split: if_splits)
    with a show ?thesis by blast
  qed
  from j(1,2,4) f t n show ?thesis by simp
qed

theorem counts_add_up_witness:
  "\<exists>s. exec golib0 flags1 maxRetries sched2 (init_state [''in/a.png'', ''in/b.cr3''] 2) = Some s \<and>
       main_pc s = M_joined \<and> (\<forall>w \<in> set (workers s). \<not> job_panicked w) \<and>
       successCount s + errorCount s = 2"
proof -
  have r: "run_setup golib0 env0 flags1 = Inr (flags1, init_state [''in/a.png'', ''in/b.cr3''] 2)"
    by (simp add: run_setup_def run_after_config_def flags1_def flags0_def default_flags_def
          env0_def)
  have "(case exec golib0 flags1 maxRetries sched2 (init_state [''in/a.png'', ''in/b.cr3''] 2) of
           Some s \<Rightarrow> main_pc s = M_joined \<and> list_all (\<lambda>w. \<not> job_panicked w) (workers s)
         | None \<Rightarrow> False)"
    by code_simp
  then obtain s where s:
    "exec golib0 flags1 maxRetries sched2 (init_state [''in/a.png'', ''in/b.cr3''] 2) = Some s"
    "main_pc s = M_joined"
    and np: "\<forall>w \<in> set (workers s). \<not> job_panicked w"
    by (auto simp: list_all_iff split: option.splits)
  from counts_add_up [OF r s, THEN conjunct2, THEN conjunct2, THEN conjunct2, THEN conjunct2,
      THEN mp, OF np, THEN conjunct1]
  have "successCount s + errorCount s = 2" by (simp add: init_state_def)
  with s np show ?thesis by (intro exI [of _ s] conjI) assumption+
qed

section \<open>The bound on concurrent calls\<close>

text \<open>
  Claim C2. At every moment of a run the number of workers inside \<^verbatim>\<open>processImage\<close> is at
  most the configured parallelism. The workers started so far are those of the first
  files of the enumeration, one for each and in that order; once the wait has returned
  there is one worker for every file, and each has called \<^verbatim>\<open>processImage\<close> once. A run
  over \<open>N\<close> files takes at most \<open>15 N + 2\<close> steps, and with a parallelism of at least 1
  some goroutine can take a step as long as the wait has not returned and no panic has
  ended the process: every such run reaches the end of the wait.
\<close>

theorem bounded_parallelism:
  assumes "run_setup L E flags = Inr (cfg, s0)" and "exec L cfg maxRetries evs s0 = Some s"
  shows "int (length (filter (\<lambda>w. pc w = W_call) (workers s))) \<le> parallelism cfg \<and>
    parallelism cfg = parallelism flags \<and>
    map wfile (workers s) = take (length (workers s)) (files s0) \<and>
    (main_pc s = M_joined \<longrightarrow>
       map wfile (workers s) = files s0 \<and>
       (\<forall>w \<in> set (workers s). length (attempts w) = 1)) \<and>
    length evs \<le> 15 * length (files s0) + 2 \<and>
    (1 \<le> parallelism cfg \<and> main_pc s \<noteq> M_joined \<and> \<not> dead s \<longrightarrow>
       (\<exists>(ev :: 'img event) s'. step L cfg maxRetries ev s = Some s'))"
proof -
  from setup_exec_inv [OF assms] have inv: "inv maxRetries s" and f: "files s = files s0"
    and c: "int (cap s) = parallelism cfg"
    by simp_all
  from inv have sem: "inv_sem s" and str: "inv_struct s" by (simp_all add: inv_def)
  from in_call_bound [OF sem] c
  have a: "int (length (filter (\<lambda>w. pc w = W_call) (workers s))) \<le> parallelism cfg" by simp
  from str f have b: "map wfile (workers s) = take (length (workers s)) (files s0)"
    by (simp add: inv_struct_def)
  have d: "map wfile (workers s) = files s0 \<and> (\<forall>w \<in> set (workers s). length (attempts w) = 1)"
    if j: "main_pc s = M_joined"
  proof -
    note jc = joined_counts [OF maxRetries_pos inv j]
    have "length (attempts w) = 1" if "w \<in> set (workers s)" for w
    proof -
      from jc(6) that have w: "wf_worker maxRetries w" "gone_pc (pc w)" by simp_all
      note e = exited_worker [OF w maxRetries_pos]
      from e(8) have "0 < length (attempts w)" by simp
      with e(5) show ?thesis unfolding maxRetries_def by linarith
    qed
    with jc(5) f show ?thesis by simp
  qed
  from run_setup_result [OF assms(1)] obtain fs where
    s0: "s0 = init_state fs (nat (parallelism cfg))" and pf: "parallelism cfg = parallelism flags"
    by blast
  have "length evs + steps_left maxRetries s \<le> steps_left maxRetries s0"
    using exec_bounded [OF maxRetries_pos _ assms(2)] by (simp add: s0 inv_init)
  moreover have "steps_left maxRetries s0 = 15 * length (files s0) + 2"
    by (simp add: s0 init_state_def steps_left_def maxRetries_def)
  ultimately have g: "length evs \<le> 15 * length (files s0) + 2" by linarith
  have h: "\<exists>(ev :: 'img event) s'. step L cfg maxRetries ev s = Some s'"
    if "1 \<le> parallelism cfg \<and> main_pc s \<noteq> M_joined \<and> \<not> dead s"
  proof -
    from that c have "0 < cap s" by linarith
    with that inv_imp_safe [OF inv] show ?thesis by (intro progress) simp_all
  qed
  from a pf b d g h show ?thesis by blast
qed

theorem bounded_parallelism_witness:
  "(\<exists>s. exec golib0 flags1 maxRetries (take 8 sched2) (init_state [''in/a.png'', ''in/b.cr3''] 2)
          = Some s \<and>
        length (filter (\<lambda>w. pc w = W_call) (workers s)) = 2 \<and>
        int (length (filter (\<lambda>w. pc w = W_call) (workers s))) \<le> 2 \<and>
        (\<exists>(ev :: nat event) s'. step golib0 flags1 maxRetries ev s = Some s')) \<and>
   (\<exists>s. exec golib0 flags1 maxRetries sched2 (init_state [''in/a.png'', ''in/b.cr3''] 2) = Some s \<and>
        main_pc s = M_joined \<and> map wfile (workers s) = [''in/a.png'', ''in/b.cr3''] \<and>
        (\<forall>w \<in> set (workers s). length (attempts w) = 1))"
proof -
  have r: "run_setup golib0 env0 flags1 = Inr (flags1, init_state [''in/a.png'', ''in/b.cr3''] 2)"
    by (simp add: run_setup_def run_after_config_def flags1_def flags0_def default_flags_def
          env0_def)
  have p: "parallelism flags1 = 2"
    by (simp add: flags1_def flags0_def default_flags_def)
  have "(case exec golib0 flags1 maxRetries (take 8 sched2)
                (init_state [''in/a.png'', ''in/b.cr3''] 2) of
           Some s \<Rightarrow> length (filter (\<lambda>w. pc w = W_call) (workers s)) = 2 \<and>
             main_pc s \<noteq> M_joined \<and> \<not> dead s
         | None \<Rightarrow> False)"
    by code_simp
  then obtain s1 where s1:
    "exec golib0 flags1 maxRetries (take 8 sched2) (init_state [''in/a.png'', ''in/b.cr3''] 2)
       = Some s1"
    "length (filter (\<lambda>w. pc w = W_call) (workers s1)) = 2"
    and n1: "main_pc s1 \<noteq> M_joined" "\<not> dead s1"
    by (auto split: option.splits)
  have "(case exec golib0 flags1 maxRetries sched2 (init_state [''in/a.png'', ''in/b.cr3''] 2) of
           Some s \<Rightarrow> main_pc s = M_joined | None \<Rightarrow> False)"
    by code_simp
  then obtain s2 where s2:
    "exec golib0 flags1 maxRetries sched2 (init_state [''in/a.png'', ''in/b.cr3''] 2) = Some s2"
    "main_pc s2 = M_joined"
    by (auto split: option.splits)
  note b1 = bounded_parallelism [OF r s1(1)]
  note b2 = bounded_parallelism [OF r s2(1)]
  from b1 [THEN conjunct1] p
  have a: "int (length (filter (\<lambda>w. pc w = W_call) (workers s1))) \<le> 2" by simp
  from p n1 have "1 \<le> parallelism flags1 \<and> main_pc s1 \<noteq> M_joined \<and> \<not> dead s1" by simp
  from b1 [THEN conjunct2, THEN conjunct2, THEN conjunct2, THEN conjunct2, THEN conjunct2,
      THEN mp, OF this]
  have l: "\<exists>(ev :: nat event) s'. step golib0 flags1 maxRetries ev s1 = Some s'" .
  note j = b2 [THEN conjunct2, THEN conjunct2, THEN conjunct2, THEN conjunct1, THEN mp, OF s2(2)]
  from j [THEN conjunct1]
  have b: "map wfile (workers s2) = [''in/a.png'', ''in/b.cr3'']"
    by (simp add: init_state_def)
  note c = j [THEN conjunct2]
  have e1: "\<exists>s. exec golib0 flags1 maxRetries (take 8 sched2)
                 (init_state [''in/a.png'', ''in/b.cr3''] 2) = Some s \<and>
        length (filter (\<lambda>w. pc w = W_call) (workers s)) = 2 \<and>
        int (length (filter (\<lambda>w. pc w = W_call) (workers s))) \<le> 2 \<and>
        (\<exists>(ev :: nat event) s'. step golib0 flags1 maxRetries ev s = Some s')"
    using s1 a l by (intro exI [of _ s1] conjI) assumption+
  have e2: "\<exists>s. exec golib0 flags1 maxRetries sched2
                 (init_state [''in/a.png'', ''in/b.cr3''] 2) = Some s \<and>
        main_pc s = M_joined \<and> map wfile (workers s) = [''in/a.png'', ''in/b.cr3''] \<and>
        (\<forall>w \<in> set (workers s). length (attempts w) = 1)"
    using s2 b c by (intro exI [of _ s2] conjI) assumption+
  from e1 e2 show ?thesis by (rule conjI)
qed

section \<open>A non-positive concurrency limit\<close>

text \<open>
  Claim C3, as the code has it. The claim as stated fails: with limit 0 and no input
  files the run completes and writes its report, and no fatal error is reported.
\<close>

theorem zero_limit_run_completes:
  "parallelism (flags1\<lparr>parallelism := 0\<rparr>) \<le> 0 \<and>
   run golib0 env_nofiles (flags1\<lparr>parallelism := 0\<rparr>) [Main, Main :: nat event] 3 =
     Completed ''out/summary_report.txt''
       (''Summary Report:'' @ nl @ ''Total images processed: 0'' @ nl @
        ''Successfully processed: 0'' @ nl @ ''Errors encountered: 0'' @ nl @
        ''Total time taken: 3ns'' @ nl)"
  by code_simp

text \<open>
  Claim C3, amended. With a non-positive limit no call of \<^verbatim>\<open>processImage\<close> occurs: when the
  set-up gets through, no worker is ever started, no worker step is possible in any state
  the run reaches, and both counters stay 0. A fatal set-up error need not be reported:
  when the set-up gets through and there is no input file, the two steps of the main
  goroutine are a complete run, which writes a report of zero images (or ends with the
  error of that write).
\<close>

theorem nonpositive_limit_starts_no_job:
  assumes "parallelism flags \<le> 0"
  shows "\<forall>cfg s0. run_setup L E flags = Inr (cfg, s0) \<longrightarrow>
       (\<forall>evs s. exec L cfg maxRetries evs s0 = Some s \<longrightarrow>
          workers s = [] \<and> successCount s = 0 \<and> errorCount s = 0 \<and> durations s = [] \<and>
          (\<forall>i wld. worker_step L cfg maxRetries i (wld :: 'img world) s = None)) \<and>
       (files s0 = [] \<longrightarrow>
          (\<forall>t. run L E flags ([Main, Main] :: 'img event list) t =
             (case WriteFile E (Join L (outputPath cfg) ''summary_report.txt'')
                     (report_header L 0 0 0 t) of
                Some err \<Rightarrow> Aborted (Fatal ''Error writing summary report: '' err)
              | None \<Rightarrow> Completed (Join L (outputPath cfg) ''summary_report.txt'')
                          (report_header L 0 0 0 t))))"
proof (intro allI impI conjI)
  fix cfg s0 evs s
  assume r: "run_setup L E flags = Inr (cfg, s0)"
    and e: "exec L cfg maxRetries evs s0 = Some s"
  from run_setup_result [OF r] assms obtain fs where s0: "s0 = init_state fs 0"
    by auto
  from exec_no_slot [OF _ e] have n: "inv_no_slot s" by (simp add: s0 no_slot_init)
  then show "workers s = []" "successCount s = 0" "errorCount s = 0" "durations s = []"
    by (simp_all add: inv_no_slot_def)
  fix i and wld :: "'img world"
  from n show "worker_step L cfg maxRetries i wld s = None"
    by (simp add: worker_step_def inv_no_slot_def)
next
  fix cfg s0 t
  assume "run_setup L E flags = Inr (cfg, s0)" and "files s0 = []"
  then show "run L E flags ([Main, Main] :: 'img event list) t =
             (case WriteFile E (Join L (outputPath cfg) ''summary_report.txt'')
                     (report_header L 0 0 0 t) of
                Some err \<Rightarrow> Aborted (Fatal ''Error writing summary report: '' err)
              | None \<Rightarrow> Completed (Join L (outputPath cfg) ''summary_report.txt'')
                          (report_header L 0 0 0 t))"
    by (rule no_files_run)
qed

theorem nonpositive_limit_starts_no_job_witness:
  "parallelism (flags1\<lparr>parallelism := 0\<rparr>) \<le> 0 \<and>
   (\<exists>s. exec golib0 (flags1\<lparr>parallelism := 0\<rparr>) maxRetries [Main :: nat event]
          (init_state [''in/a.png'', ''in/b.cr3''] 0) = Some s \<and>
        workers s = [] \<and> worker_step golib0 (flags1\<lparr>parallelism := 0\<rparr>) maxRetries 0 world_ok s = None) \<and>
   files (init_state [] 0) = [] \<and>
   run golib0 env_nofiles (flags1\<lparr>parallelism := 0\<rparr>) [Main, Main :: nat event] 5 =
     Completed ''out/summary_report.txt'' (report_header golib0 0 0 0 5)"
proof -
  have p: "parallelism (flags1\<lparr>parallelism := 0\<rparr>) \<le> 0" by simp
  have r: "run_setup golib0 env0 (flags1\<lparr>parallelism := 0\<rparr>) =
      Inr (flags1\<lparr>parallelism := 0\<rparr>, init_state [''in/a.png'', ''in/b.cr3''] 0)"
    by (simp add: run_setup_def run_after_config_def flags1_def flags0_def default_flags_def
          env0_def)
  have r': "run_setup golib0 env_nofiles (flags1\<lparr>parallelism := 0\<rparr>) =
      Inr (flags1\<lparr>parallelism := 0\<rparr>, init_state [] 0)"
    by (simp add: run_setup_def run_after_config_def flags1_def flags0_def default_flags_def
          env0_def env_nofiles_def)
  have f: "files (init_state [] 0) = []" by (simp add: init_state_def)
  have "(case exec golib0 (flags1\<lparr>parallelism := 0\<rparr>) maxRetries [Main :: nat event]
                (init_state [''in/a.png'', ''in/b.cr3''] 0) of
           Some s \<Rightarrow> True | None \<Rightarrow> False)"
    by code_simp
  then obtain s where s:
    "exec golib0 (flags1\<lparr>parallelism := 0\<rparr>) maxRetries [Main :: nat event]
       (init_state [''in/a.png'', ''in/b.cr3''] 0) = Some s"
    by (auto split: option.splits)
  note n = nonpositive_limit_starts_no_job [OF p, of golib0 env0, rule_format, OF r,
      THEN conjunct1, rule_format, OF s]
  from n have w: "workers s = []" by (rule conjunct1)
  from n have v: "worker_step golib0 (flags1\<lparr>parallelism := 0\<rparr>) maxRetries 0 world_ok s = None"
    by blast
  have o: "WriteFile env_nofiles (Join golib0 (outputPath (flags1\<lparr>parallelism := 0\<rparr>))
      ''summary_report.txt'') (report_header golib0 0 0 0 5) = None"
    by (simp add: env_nofiles_def env0_def)
  have j: "Join golib0 (outputPath (flags1\<lparr>parallelism := 0\<rparr>)) ''summary_report.txt'' =
      ''out/summary_report.txt''"
    by (simp add: Join_def golib0_def flags1_def flags0_def)
  from nonpositive_limit_starts_no_job [OF p, of golib0 env_nofiles, rule_format, OF r',
      THEN conjunct2, THEN mp, OF f, rule_format, of 5] o j
  have c: "run golib0 env_nofiles (flags1\<lparr>parallelism := 0\<rparr>) [Main, Main :: nat event] 5 =
     Completed ''out/summary_report.txt'' (report_header golib0 0 0 0 5)"
    by simp
  have "\<exists>s. exec golib0 (flags1\<lparr>parallelism := 0\<rparr>) maxRetries [Main :: nat event]
          (init_state [''in/a.png'', ''in/b.cr3''] 0) = Some s \<and>
        workers s = [] \<and> worker_step golib0 (flags1\<lparr>parallelism := 0\<rparr>) maxRetries 0 world_ok s = None"
    using s w v by (intro exI [of _ s] conjI) assumption+
  with p f c show ?thesis by (intro conjI) assumption+
qed

section \<open>The outcome of the retry loop\<close>

text \<open>
  Claim C4. With \<open>k\<close> attempts allowed (\<open>k\<close> at least 1; the program runs with
  \<^verbatim>\<open>maxRetries\<close>, which is 1), after the wait every job has made at most \<open>k\<close> calls, all but
  the last of which returned an error. A job whose last call succeeded counts as one
  success and contributes the duration of that call and no other; a job whose calls all
  returned an error has made exactly \<open>k\<close> of them, counts as one error and contributes no
  duration. The only other jobs are those whose last call panicked; they contribute no
  duration either. The counters and the list of durations are made of exactly these
  contributions, and the duration of a successful call is the time measured inside that
  call.
\<close>

theorem retry_outcome:
  assumes "0 < k" and "exec L cfg k evs (init_state fs n) = Some s" and "main_pc s = M_joined"
  shows "(\<forall>w \<in> set (workers s).
            length (attempts w) \<le> k \<and>
            (\<forall>r \<in> set (butlast (attempts w)). isl r \<and> r \<noteq> Inl RuntimePanic) \<and>
            (job_succeeded w \<or> job_failed w \<and> length (attempts w) = k \<or>
             last (attempts w) = Inl RuntimePanic) \<and>
            (job_succeeded w \<longrightarrow>
               \<not> job_failed w \<and> (\<exists>d. last (attempts w) = Inr d \<and> job_durations w = [d])) \<and>
            (job_failed w \<longrightarrow> last (attempts w) \<noteq> Inl RuntimePanic \<and> job_durations w = []) \<and>
            (last (attempts w) = Inl RuntimePanic \<longrightarrow> job_durations w = [])) \<and>
    successCount s = int (length (filter job_succeeded (workers s))) \<and>
    errorCount s = int (length (filter job_failed (workers s))) \<and>
    mset (durations s) = mset (concat (map job_durations (workers s))) \<and>
    (\<forall>wld f d. snd (processImage L cfg wld f) = Inr d \<longrightarrow> d = elapsed wld)"
proof -
  have inv: "inv k s"
    using exec_inv [OF assms(1) _ assms(2)] by (simp add: inv_init)
  note jc = joined_counts [OF assms(1) inv assms(3)]
  have w: "length (attempts w) \<le> k \<and>
            (\<forall>r \<in> set (butlast (attempts w)). isl r \<and> r \<noteq> Inl RuntimePanic) \<and>
            (job_succeeded w \<or> job_failed w \<and> length (attempts w) = k \<or>
             last (attempts w) = Inl RuntimePanic) \<and>
            (job_succeeded w \<longrightarrow>
               \<not> job_failed w \<and> (\<exists>d. last (attempts w) = Inr d \<and> job_durations w = [d])) \<and>
            (job_failed w \<longrightarrow> last (attempts w) \<noteq> Inl RuntimePanic \<and> job_durations w = []) \<and>
            (last (attempts w) = Inl RuntimePanic \<longrightarrow> job_durations w = [])"
    if "w \<in> set (workers s)" for w
  proof -
    from jc(6) that have wf: "wf_worker k w" "gone_pc (pc w)" by simp_all
    note e = exited_worker [OF wf assms(1)]
    from e(7) have bl: "\<forall>r \<in> set (butlast (attempts w)). isl r \<and> r \<noteq> Inl RuntimePanic"
      by (simp add: returned_error_def)
    from returned_error_butlast(1) [OF e(8,7)]
    have pl: "job_panicked w \<longleftrightarrow> last (attempts w) = Inl RuntimePanic"
      by (simp add: job_panicked_def)
    from e(4) have one: "job_succeeded w \<or> job_failed w \<or> job_panicked w"
      "job_succeeded w \<longrightarrow> \<not> job_failed w" "job_failed w \<longrightarrow> \<not> job_panicked w"
      by (auto simp: ind_def split: if_splits)
    have sd: "\<exists>d. last (attempts w) = Inr d \<and> job_durations w = [d]" if "job_succeeded w"
      using that by (cases "last (attempts w)") (simp_all add: job_succeeded_def job_durations_def)
    have nd: "job_durations w = []" if "isl (last (attempts w))"
      using that by (cases "last (attempts w)") (simp_all add: job_durations_def)
    have fd: "job_durations w = []" if "job_failed w"
    proof -
      from that last_in_set [OF e(8)] have "isl (last (attempts w))"
        by (auto simp: job_failed_def)
      then show ?thesis by (rule nd)
    qed
    have pd: "job_durations w = []" if "last (attempts w) = Inl RuntimePanic"
      using that by (intro nd) simp
    from e(5,6) bl pl one sd fd pd show ?thesis by blast
  qed
  have "\<forall>wld f d. snd (processImage L cfg wld f) = Inr d \<longrightarrow> d = elapsed wld"
    by (blast dest: success_elapsed)
  with w jc(1,2,3) show ?thesis by blast
qed

theorem retry_outcome_witness:
  "\<exists>s. exec golib0 flags1 2 sched_retry (init_state [''in/a.png''] 1) = Some s \<and>
       main_pc s = M_joined \<and>
       map attempts (workers s) = [[Inl (ErrOpen ''in/a.png'' ''no such file''), Inr 7]] \<and>
       successCount s = 1 \<and> errorCount s = 0 \<and> mset (durations s) = {#7#}"
proof -
  have "(case exec golib0 flags1 2 sched_retry (init_state [''in/a.png''] 1) of
           Some s \<Rightarrow> main_pc s = M_joined \<and>
             map attempts (workers s) = [[Inl (ErrOpen ''in/a.png'' ''no such file''), Inr 7]]
         | None \<Rightarrow> False)"
    by code_simp
  then obtain s where s:
    "exec golib0 flags1 2 sched_retry (init_state [''in/a.png''] 1) = Some s"
    "main_pc s = M_joined"
    "map attempts (workers s) = [[Inl (ErrOpen ''in/a.png'' ''no such file''), Inr 7]]"
    by (auto split: option.splits)
  from s(3) obtain w where w: "workers s = [w]"
    "attempts w = [Inl (ErrOpen ''in/a.png'' ''no such file''), Inr 7]"
    by (cases "workers s") auto
  have k: "(0::nat) < 2" by simp
  note ro = retry_outcome [OF k s(1,2), THEN conjunct2]
  from ro [THEN conjunct1] w have a: "successCount s = 1"
    by (simp add: job_succeeded_def)
  from ro [THEN conjunct2, THEN conjunct1] w have b: "errorCount s = 0"
    by (simp add: job_failed_def)
  from ro [THEN conjunct2, THEN conjunct2, THEN conjunct1] w
  have c: "mset (durations s) = {#7#}"
    by (simp add: job_durations_def)
  from s a b c show ?thesis by (intro exI [of _ s] conjI) assumption+
qed

section \<open>The report of a completed run\<close>

text \<open>
  Claim C5. When the run completes, the file written is \<^verbatim>\<open>summary_report.txt\<close> joined to
  the output directory, and its text is, line by line, the five header lines with the
  number of files, the two counters and the total time, followed by one numbered line
  for each recorded duration in the order of recording. The number of numbered lines is
  the success counter, not the number of files: the two counters and the number of jobs
  whose call panicked add up to the number of files.
\<close>

theorem summary_report_contents:
  assumes "run L E flags evs t = Completed path text"
  shows "\<exists>cfg s0 s.
    run_setup L E flags = Inr (cfg, s0) \<and> exec L cfg maxRetries evs s0 = Some s \<and>
    main_pc s = M_joined \<and>
    path = Join L (outputPath cfg) ''summary_report.txt'' \<and>
    text = concat (map (\<lambda>l. l @ nl)
             (report_lines_spec L (int (length (files s0))) (successCount s) (errorCount s) t
                (durations s))) \<and>
    length (report_lines_spec L (int (length (files s0))) (successCount s) (errorCount s) t
                (durations s)) = 5 + length (durations s) \<and>
    int (length (durations s)) = successCount s \<and>
    successCount s + errorCount s + int (length (filter job_panicked (workers s))) =
      int (length (files s0))"
proof -
  from assms obtain cfg s0 s where r: "run_setup L E flags = Inr (cfg, s0)"
    and e: "exec L cfg maxRetries evs s0 = Some s" and j: "main_pc s = M_joined"
    and g: "generateSummaryReport L E cfg (int (length (files s))) (successCount s)
              (errorCount s) t (durations s) = Inr (path, text)"
    by (rule run_Completed)
  from setup_exec_inv [OF r e] have inv: "inv maxRetries s" and f: "files s = files s0"
    by simp_all
  from g have p: "path = Join L (outputPath cfg) ''summary_report.txt''"
    and x: "text = report_loop L (report_header L (int (length (files s))) (successCount s)
              (errorCount s) t) 0 (durations s)"
    by (auto simp: generateSummaryReport_def Let_def split: option.splits)
  from x f have x': "text = concat (map (\<lambda>l. l @ nl)
             (report_lines_spec L (int (length (files s0))) (successCount s) (errorCount s) t
                (durations s)))"
    by (simp add: report_text)
  have l: "length (report_lines_spec L (int (length (files s0))) (successCount s) (errorCount s) t
                (durations s)) = 5 + length (durations s)"
    by (simp add: report_lines_spec_def)
  note d = joined_durations_length [OF maxRetries_pos inv j]
  note jc = joined_counts [OF maxRetries_pos inv j]
  have one: "\<forall>w \<in> set (workers s).
      ind (job_succeeded w) + ind (job_failed w) + ind (job_panicked w) = 1"
    using jc(6) exited_worker(4) [OF _ _ maxRetries_pos] by blast
  from three_way_count [OF one] jc(1,2,4) f
  have c: "successCount s + errorCount s + int (length (filter job_panicked (workers s))) =
      int (length (files s0))"
    by simp
  from r e j p x' l d c show ?thesis by blast
qed

theorem summary_report_contents_witness:
  "run golib0 env0 flags1 sched2 9 =
     Completed ''out/summary_report.txt''
       (''Summary Report:'' @ nl @ ''Total images processed: 2'' @ nl @
        ''Successfully processed: 1'' @ nl @ ''Errors encountered: 1'' @ nl @
        ''Total time taken: 9ns'' @ nl @ ''Image 1 processing time: 7ns'' @ nl) \<and>
   (\<exists>cfg s0 s. run_setup golib0 env0 flags1 = Inr (cfg, s0) \<and>
      exec golib0 cfg maxRetries sched2 s0 = Some s \<and> int (length (durations s)) = successCount s)"
proof -
  have a: "run golib0 env0 flags1 sched2 9 =
     Completed ''out/summary_report.txt''
       (''Summary Report:'' @ nl @ ''Total images processed: 2'' @ nl @
        ''Successfully processed: 1'' @ nl @ ''Errors encountered: 1'' @ nl @
        ''Total time taken: 9ns'' @ nl @ ''Image 1 processing time: 7ns'' @ nl)"
    by code_simp
  from summary_report_contents [OF a]
  have "\<exists>cfg s0 s. run_setup golib0 env0 flags1 = Inr (cfg, s0) \<and>
      exec golib0 cfg maxRetries sched2 s0 = Some s \<and> int (length (durations s)) = successCount s"
    by blast
  with a show ?thesis by (rule conjI)
qed

section \<open>Unsupported output formats\<close>



section \<open>The check of the dimensions\<close>

text \<open>
  Claim C7 at a configuration with a negative width and no height: the set-up does not
  abort, the files are processed and the report is written.
\<close>

theorem negative_width_passes_setup:
  "\<not> 0 < maxWidth (flags0\<lparr>maxWidth := - 1\<rparr>) \<and> \<not> 0 < maxHeight (flags0\<lparr>maxWidth := - 1\<rparr>) \<and>
   run_setup golib0 env0 (flags0\<lparr>maxWidth := - 1\<rparr>) =
     Inr (flags0\<lparr>maxWidth := - 1\<rparr>, init_state [''in/a.png'', ''in/b.cr3''] 2) \<and>
   run golib0 env0 (flags0\<lparr>maxWidth := - 1\<rparr>) sched2 9 =
     Completed ''out/summary_report.txt''
       (''Summary Report:'' @ nl @ ''Total images processed: 2'' @ nl @
        ''Successfully processed: 1'' @ nl @ ''Errors encountered: 1'' @ nl @
        ''Total time taken: 9ns'' @ nl @ ''Image 1 processing time: 7ns'' @ nl)"
proof -
  have a: "run_setup golib0 env0 (flags0\<lparr>maxWidth := - 1\<rparr>) =
     Inr (flags0\<lparr>maxWidth := - 1\<rparr>, init_state [''in/a.png'', ''in/b.cr3''] 2)"
    by (simp add: run_setup_def run_after_config_def flags0_def default_flags_def env0_def)
  have b: "run golib0 env0 (flags0\<lparr>maxWidth := - 1\<rparr>) sched2 9 =
     Completed ''out/summary_report.txt''
       (''Summary Report:'' @ nl @ ''Total images processed: 2'' @ nl @
        ''Successfully processed: 1'' @ nl @ ''Errors encountered: 1'' @ nl @
        ''Total time taken: 9ns'' @ nl @ ''Image 1 processing time: 7ns'' @ nl)"
    by code_simp
  have c: "\<not> 0 < maxWidth (flags0\<lparr>maxWidth := - 1\<rparr>)" "\<not> 0 < maxHeight (flags0\<lparr>maxWidth := - 1\<rparr>)"
    by (simp_all add: flags0_def default_flags_def)
  from a b c show ?thesis by (intro conjI) assumption+
qed

section \<open>The output file\<close>

text \<open>
  Claim C8. When \<^verbatim>\<open>processImage\<close> succeeds on a file, it has written exactly one encoded
  image; the write succeeded, and its path is the output directory joined with the base
  name of the input file without its extension, a dot and the output format, which is
  one of the four supported ones. This is so for a \<^verbatim>\<open>.cr3\<close> input as well, where the code
  takes the name from the intermediate \<^verbatim>\<open>.jpg\<close> file. The file name has no path separator
  when the input path is not made of separators only.
\<close>

theorem output_file_name:
  assumes "snd (processImage L cfg w f) = Inr d"
  shows "(\<exists>img opts.
       filter is_save (fst (processImage L cfg w f)) =
         [SaveImage img (Join L (outputPath cfg)
            (TrimSuffix (Base f) (Ext f) @ ''.'' @ outputFormat cfg)) opts] \<and>
       imaging_Save w img (Join L (outputPath cfg)
            (TrimSuffix (Base f) (Ext f) @ ''.'' @ outputFormat cfg)) opts = None) \<and>
    outputFormat cfg \<in> {''jpeg'', ''png'', ''gif'', ''bmp''} \<and>
    (HasSuffix f ''.cr3'' \<longrightarrow>
       TrimSuffix (Base (TrimSuffix f ''.cr3'' @ ''.jpg'')) (Ext (TrimSuffix f ''.cr3'' @ ''.jpg''))
         = TrimSuffix (Base f) (Ext f)) \<and>
    ((\<exists>c \<in> set f. c \<noteq> CHR ''/'') \<longrightarrow>
       CHR ''/'' \<notin> set (TrimSuffix (Base f) (Ext f) @ ''.'' @ outputFormat cfg))"
proof -
  from processImage_success [OF assms] obtain img opts where
    a: "filter is_save (fst (processImage L cfg w f)) =
         [SaveImage img (Join L (outputPath cfg)
            (TrimSuffix (Base f) (Ext f) @ ''.'' @ outputFormat cfg)) opts]"
       "imaging_Save w img (Join L (outputPath cfg)
            (TrimSuffix (Base f) (Ext f) @ ''.'' @ outputFormat cfg)) opts = None"
    and s: "supported (outputFormat cfg)"
    by blast
  have n: "CHR ''/'' \<notin> set (TrimSuffix (Base f) (Ext f) @ ''.'' @ outputFormat cfg)"
    if "\<exists>c \<in> set f. c \<noteq> CHR ''/''"
  proof -
    from that have "\<exists>c \<in> set f. \<not> isSep c" by (simp add: isSep_def)
    from Base_no_sep [OF this] TrimSuffix_subset [of "Base f" "Ext f"]
    have "\<forall>c \<in> set (TrimSuffix (Base f) (Ext f)). \<not> isSep c" by blast
    with supported_no_sep [OF s] show ?thesis by (auto simp: isSep_def)
  qed
  from s have "outputFormat cfg \<in> {''jpeg'', ''png'', ''gif'', ''bmp''}"
    by (simp add: supported_def)
  with a n stem_cr3 [of f] show ?thesis by blast
qed

theorem output_file_name_witness:
  "\<exists>img opts. filter is_save (fst (processImage golib0 flags1 world_ok ''in/b.cr3'')) =
     [SaveImage img ''out/b.jpeg'' opts] \<and>
     CHR ''/'' \<notin> set ''b.jpeg''"
proof -
  have h: "snd (processImage golib0 flags1 world_ok ''in/b.cr3'') = Inr 7"
    by code_simp
  have j: "Join golib0 (outputPath flags1)
      (TrimSuffix (Base ''in/b.cr3'') (Ext ''in/b.cr3'') @ ''.'' @ outputFormat flags1) =
      ''out/b.jpeg''"
    by code_simp
  have k: "TrimSuffix (Base ''in/b.cr3'') (Ext ''in/b.cr3'') @ ''.'' @ outputFormat flags1 = ''b.jpeg''"
    by code_simp
  have c: "\<exists>c \<in> set ''in/b.cr3''. c \<noteq> CHR ''/''" by simp
  note o = output_file_name [OF h]
  from o [THEN conjunct1] j
  have 1: "\<exists>img opts. filter is_save (fst (processImage golib0 flags1 world_ok ''in/b.cr3'')) =
     [SaveImage img ''out/b.jpeg'' opts]"
    by auto
  from o [THEN conjunct2, THEN conjunct2, THEN conjunct2, THEN mp, OF c] k
  have 2: "CHR ''/'' \<notin> set ''b.jpeg''" by simp
  from 1 2 show ?thesis by blast
qed

section \<open>The quality option\<close>

text \<open>
  Claim C9, as the code has it. The claim as stated fails: the value is not confined to
  the range 1--100. A compression of 1000 passes the set-up, and \<^verbatim>\<open>processImage\<close> hands it to
  the encoder as the quality.
\<close>

theorem quality_out_of_range_reaches_encoder:
  "\<not> (1 \<le> compression (flags1\<lparr>compression := 1000\<rparr>) \<and>
      compression (flags1\<lparr>compression := 1000\<rparr>) \<le> 100) \<and>
   run_setup golib0 env0 (flags1\<lparr>compression := 1000\<rparr>) =
     Inr (flags1\<lparr>compression := 1000\<rparr>, init_state [''in/a.png'', ''in/b.cr3''] 2) \<and>
   processImage golib0 (flags1\<lparr>compression := 1000\<rparr>) world_ok ''in/a.png'' =
     ([SaveImage 2 ''out/a.jpeg'' [JPEGQuality 1000]], Inr 7)"
proof -
  have a: "\<not> (1 \<le> compression (flags1\<lparr>compression := 1000\<rparr>) \<and>
      compression (flags1\<lparr>compression := 1000\<rparr>) \<le> 100)"
    by simp
  have b: "run_setup golib0 env0 (flags1\<lparr>compression := 1000\<rparr>) =
     Inr (flags1\<lparr>compression := 1000\<rparr>, init_state [''in/a.png'', ''in/b.cr3''] 2)"
    by (simp add: run_setup_def run_after_config_def flags1_def flags0_def default_flags_def
          env0_def)
  have c: "processImage golib0 (flags1\<lparr>compression := 1000\<rparr>) world_ok ''in/a.png'' =
     ([SaveImage 2 ''out/a.jpeg'' [JPEGQuality 1000]], Inr 7)"
    by code_simp
  from a b c show ?thesis by (intro conjI) assumption+
qed

text \<open>
  Claim C9, amended. The compression value is an \<^verbatim>\<open>int\<close>, 75 by default. Whenever
  \<^verbatim>\<open>processImage\<close> writes an image, the encoder options are the quality option with the
  configured value if the output format is \<^verbatim>\<open>jpeg\<close>, and empty otherwise; with any other
  format, \<^verbatim>\<open>png\<close>, \<^verbatim>\<open>gif\<close> and \<^verbatim>\<open>bmp\<close> among them, neither the files written nor the result
  depend on the value.
\<close>

theorem quality_only_for_jpeg:
  "compression (default_flags ncpu) = 75 \<and>
   (\<forall>img path opts. SaveImage img path opts \<in> set (fst (processImage L cfg w f)) \<longrightarrow>
      opts = (if outputFormat cfg = ''jpeg'' then [JPEGQuality (compression cfg)] else [])) \<and>
   (outputFormat cfg \<noteq> ''jpeg'' \<longrightarrow>
      processImage L (cfg\<lparr>compression := c\<rparr>) w f = processImage L cfg w f)"
  using processImage_effects [of _ _ _ L cfg w f] processImage_compression [of cfg L c w f]
  by (simp add: default_flags_def)

theorem quality_only_for_jpeg_witness:
  "processImage golib0 flags1 world_ok ''in/a.png'' =
     ([SaveImage 2 ''out/a.jpeg'' [JPEGQuality 75]], Inr 7) \<and>
   [JPEGQuality 75] = [JPEGQuality (compression flags1)] \<and>
   processImage golib0 (flags1\<lparr>outputFormat := ''png'', compression := 10\<rparr>) world_ok ''in/a.png'' =
     ([SaveImage 2 ''out/a.png'' []], Inr 7)"
proof -
  have a: "processImage golib0 flags1 world_ok ''in/a.png'' =
     ([SaveImage 2 ''out/a.jpeg'' [JPEGQuality 75]], Inr 7)"
    by code_simp
  have f: "outputFormat flags1 = ''jpeg''" by code_simp
  have m: "SaveImage 2 ''out/a.jpeg'' [JPEGQuality 75] \<in>
      set (fst (processImage golib0 flags1 world_ok ''in/a.png''))"
    by (simp add: a)
  note q = quality_only_for_jpeg [of 2 golib0 flags1 world_ok "''in/a.png''" 10]
  from q [THEN conjunct2, THEN conjunct1, rule_format, OF m] f
  have b: "[JPEGQuality 75] = [JPEGQuality (compression flags1)]" by simp
  have p: "outputFormat (flags1\<lparr>outputFormat := ''png''\<rparr>) \<noteq> ''jpeg''" by simp
  have "processImage golib0 (flags1\<lparr>outputFormat := ''png''\<rparr>) world_ok ''in/a.png'' =
     ([SaveImage 2 ''out/a.png'' []], Inr 7)"
    by code_simp
  with quality_only_for_jpeg [of 2 golib0 "flags1\<lparr>outputFormat := ''png''\<rparr>" world_ok
      "''in/a.png''" 10, THEN conjunct2, THEN conjunct2, THEN mp, OF p]
  have c: "processImage golib0 (flags1\<lparr>outputFormat := ''png'', compression := 10\<rparr>) world_ok
      ''in/a.png'' = ([SaveImage 2 ''out/a.png'' []], Inr 7)"
    by simp
  from a b c show ?thesis by (intro conjI) assumption+
qed

end
